theory Spec2Isabelle
  imports Complex_Main "HOL-Library.Word"
begin

chapter \<open>The transformation functions of gifsicle (xform.c)\<close>

text \<open>
  A shallow embedding of \<^verbatim>\<open>xform.c\<close>: the colour transform pipeline, the recolour
  and the external-process colour transforms, cropping, flipping, rotation and scaling
  of a frame, and the resizing of a stream.

  Conventions of the embedding.
  \<^item> A C \<^verbatim>\<open>int\<close> is an \<^typ>\<open>int\<close>: the arithmetic of the model is that of the
    integers. Signed overflow is undefined in C, so the theorems speak of the code
    where no intermediate value leaves the range of \<^verbatim>\<open>int\<close>; none relies on wrap-around.
    \<open>scale_image\<close>, whose products grow with the square of the frame, checks the range
    of every intermediate value and returns \<open>Inl IntOverflow\<close> where one leaves it.
  \<^item> A NULL-terminated singly linked list is the \<^typ>\<open>'a list\<close> of its nodes, the
    \<^verbatim>\<open>next\<close> field being the list structure.
  \<^item> A C array is the \<^typ>\<open>'a list\<close> of its allocated cells. Reading or writing a cell
    outside of it, and dereferencing a null pointer, is undefined in C: the model
    returns \<open>Inl OutOfBounds\<close> or \<open>Inl NullPointer\<close> there.
  \<^item> \<^verbatim>\<open>fatal_error\<close> and a failed \<^verbatim>\<open>assert\<close> do not return: the model returns
    \<open>Inl (Fatal msg)\<close> and \<open>Inl AssertionFailed\<close>.
\<close>

section \<open>Errors and array access\<close>

datatype error =
  Fatal string | AssertionFailed | OutOfBounds | NullPointer | DivisionByZero | IntOverflow

definition array_get :: "'a list \<Rightarrow> int \<Rightarrow> error + 'a" where
  "array_get xs i = (if 0 \<le> i \<and> i < int (length xs) then Inr (xs ! nat i) else Inl OutOfBounds)"

definition array_set :: "'a list \<Rightarrow> int \<Rightarrow> 'a \<Rightarrow> error + 'a list" where
  "array_set xs i v =
     (if 0 \<le> i \<and> i < int (length xs) then Inr (xs[nat i := v]) else Inl OutOfBounds)"

section \<open>Colours, colormaps and the transform list\<close>

text \<open>
  Modelled from the spec: the structures \<^verbatim>\<open>Gif_Color\<close> and \<^verbatim>\<open>Gif_Colormap\<close> are
  declared in \<^verbatim>\<open>gif.h\<close>, which the source file includes. By the spec a colormap is an
  "ordered sequence of Color entries (each: red, green, blue, a "has explicit pixel slot"
  flag, and -- if that flag is set -- the explicit index it is pinned to); count of
  entries". The fields are the ones \<^verbatim>\<open>xform.c\<close> reads and writes: the three components
  and the flag \<open>haspixel\<close> (set when it is not zero) are bytes, the slot \<open>pixel\<close> is
  compared at type \<^verbatim>\<open>uint32_t\<close> in the source.
\<close>

record Gif_Color =
  haspixel :: "8 word"
  red :: "8 word"
  green :: "8 word"
  blue :: "8 word"
  pixel :: "32 word"

text \<open>
  \<open>col\<close> is the allocated array of a colormap (its length is the capacity), \<open>ncol\<close>
  the number of entries in use.
\<close>

record Gif_Colormap =
  ncol :: int
  col :: "Gif_Color list"

record Gt_ColorChange =
  old_color :: Gif_Color
  new_color :: Gif_Color

text \<open>
  A node of the transform list holds a function pointer and a \<^verbatim>\<open>void *\<close>. The pointer is
  compared by identity only, so it is modelled by a name; the payload is what the
  pointer refers to: the list of changes of a recolour node (NULL is the empty list),
  the command of an external-process node, or anything else.
\<close>

datatype color_transform_func =
  FN_color_change_transformer | FN_pipe_color_transformer | FN_other nat

datatype transform_data =
  ColorChanges "Gt_ColorChange list" | Command string | OtherData nat

record Gt_ColorTransform =
  func :: color_transform_func
  data :: transform_data

subsection \<open>append_color_transform, delete_color_transforms\<close>

text \<open>
  The loop \<^verbatim>\<open>for (trav = list; trav && trav->next; trav = trav->next)\<close> followed by
  \<^verbatim>\<open>trav->next = xform\<close>: walk to the node with no successor and link the new node
  there. The walk starts at a node (\<open>trav\<close> is not null).
\<close>

fun link_at_tail :: "'a \<Rightarrow> 'a list \<Rightarrow> 'a \<Rightarrow> 'a list" where
  "link_at_tail trav [] xform = [trav, xform]"
| "link_at_tail trav (nxt # rest) xform = trav # link_at_tail nxt rest xform"

definition append_color_transform ::
  "Gt_ColorTransform list \<Rightarrow> color_transform_func \<Rightarrow> transform_data \<Rightarrow> Gt_ColorTransform list"
where
  "append_color_transform list f d =
     (let xform = \<lparr>func = f, data = d\<rparr> in
      case list of
        [] \<Rightarrow> [xform]
      | trav # rest \<Rightarrow> link_at_tail trav rest xform)"

text \<open>
  The loop of \<^verbatim>\<open>delete_color_transforms\<close>. \<open>kept\<close> is the list from its head up to
  \<open>prev\<close> (empty while \<open>prev\<close> is null), the second list starts at \<open>trav\<close>. A node
  whose \<open>func\<close> is the given one is unlinked, any other becomes \<open>prev\<close>.
\<close>

fun delete_loop ::
  "color_transform_func \<Rightarrow> Gt_ColorTransform list \<Rightarrow> Gt_ColorTransform list \<Rightarrow> Gt_ColorTransform list"
where
  "delete_loop f kept [] = kept"
| "delete_loop f kept (trav # nxt) =
     (if func trav = f then delete_loop f kept nxt else delete_loop f (kept @ [trav]) nxt)"

definition delete_color_transforms ::
  "Gt_ColorTransform list \<Rightarrow> color_transform_func \<Rightarrow> Gt_ColorTransform list"
where
  "delete_color_transforms list f = delete_loop f [] list"

subsection \<open>color_change_transformer, append_color_change\<close>

text \<open>
  Modelled from the spec: the macro \<^verbatim>\<open>GIF_COLOREQ\<close> is defined in \<^verbatim>\<open>gif.h\<close>; by the
  spec a change matches when "its RGB triple equals entry i's RGB triple".
\<close>

definition GIF_COLOREQ :: "Gif_Color \<Rightarrow> Gif_Color \<Rightarrow> bool" where
  "GIF_COLOREQ c1 c2 \<longleftrightarrow> red c1 = red c2 \<and> green c1 = green c2 \<and> blue c1 = blue c2"

text \<open>
  The inner loop, over the changes, for the entry \<open>i\<close>. The entry is read only when
  the change has no pixel slot, and written on a match, which ends the loop
  (\<^verbatim>\<open>break\<close>).
\<close>

fun change_scan :: "Gif_Color list \<Rightarrow> int \<Rightarrow> Gt_ColorChange list \<Rightarrow> error + Gif_Color list" where
  "change_scan cols i [] = Inr cols"
| "change_scan cols i (change # nxt) =
     (if haspixel (old_color change) = 0 then
        (case array_get cols i of
           Inl e \<Rightarrow> Inl e
         | Inr c \<Rightarrow>
             if GIF_COLOREQ c (old_color change) then array_set cols i (new_color change)
             else change_scan cols i nxt)
      else if pixel (old_color change) = word_of_int i then array_set cols i (new_color change)
      else change_scan cols i nxt)"

function color_change_loop ::
  "Gt_ColorChange list \<Rightarrow> int \<Rightarrow> int \<Rightarrow> Gif_Color list \<Rightarrow> error + Gif_Color list"
where
  "color_change_loop changes n i cols =
     (if i < n then
        (case change_scan cols i changes of
           Inl e \<Rightarrow> Inl e
         | Inr cols' \<Rightarrow> color_change_loop changes n (i + 1) cols')
      else Inr cols)"
  by pat_completeness auto
termination
  by (relation "measure (\<lambda>(changes, n, i, cols). nat (n - i))") auto

declare color_change_loop.simps [simp del]

definition color_change_transformer :: "Gif_Colormap \<Rightarrow> Gt_ColorChange list \<Rightarrow> error + Gif_Colormap" where
  "color_change_transformer gfcm first_change =
     (case color_change_loop first_change (ncol gfcm) 0 (col gfcm) of
        Inl e \<Rightarrow> Inl e
      | Inr cols \<Rightarrow> Inr (gfcm\<lparr>col := cols\<rparr>))"

text \<open>
  \<^verbatim>\<open>append_color_change\<close> walks to the last node of the pipeline. When that node is a
  recolour node, its payload is read as a list of changes and the new change is linked
  at its tail; \<^verbatim>\<open>prev->next\<close> dereferences the payload, which must not be null.
\<close>

fun last_node :: "'a list \<Rightarrow> 'a option" where
  "last_node [] = None"
| "last_node [xform] = Some xform"
| "last_node (xform # nxt # rest) = last_node (nxt # rest)"

definition append_color_change ::
  "Gt_ColorTransform list \<Rightarrow> Gif_Color \<Rightarrow> Gif_Color \<Rightarrow> error + Gt_ColorTransform list"
where
  "append_color_change list old new =
     (let change = \<lparr>old_color = old, new_color = new\<rparr> in
      case last_node list of
        None \<Rightarrow> Inr (append_color_transform list FN_color_change_transformer (ColorChanges [change]))
      | Some xform \<Rightarrow>
          if func xform \<noteq> FN_color_change_transformer
          then Inr (append_color_transform list FN_color_change_transformer (ColorChanges [change]))
          else
            (case data xform of
               ColorChanges (prev # rest) \<Rightarrow>
                 Inr (butlast list @ [xform\<lparr>data := ColorChanges (link_at_tail prev rest change)\<rparr>])
             | _ \<Rightarrow> Inl NullPointer))"

subsection \<open>pipe_color_transformer\<close>

text \<open>
  A diagnostic is recorded by its severity and its format string. \<open>cant\<close> spells the
  word with its apostrophe.
\<close>

datatype diagnostic = Error string | Warning string

definition cant :: string where
  "cant = ''can'' @ [CHR 0x27] @ ''t''"

text \<open>
  What the operating system and the colormap parser answer during one call is a
  parameter of the model: whether \<^verbatim>\<open>mkstemp\<close> (or \<^verbatim>\<open>tmpnam\<close>) and \<^verbatim>\<open>popen\<close> succeed,
  the status \<^verbatim>\<open>pclose\<close> returns, the result of \<^verbatim>\<open>fopen\<close> on the temporary file
  (\<open>None\<close> for a null pointer, otherwise the value of \<^verbatim>\<open>feof\<close>), and for
  \<^verbatim>\<open>read_colormap_file\<close>, which is defined in another file, the diagnostics it emits
  and the colormap it returns (\<open>None\<close> for a null pointer).
\<close>

record pipe_answers =
  tmp_file_created :: bool
  popen_ok :: bool
  pclose_status :: int
  fopen_result :: "bool option"
  parser_diagnostics :: "diagnostic list"
  parser_result :: "Gif_Colormap option"

text \<open>
  The part of the world the function changes: the diagnostics emitted so far, whether
  the temporary file exists, and the lines written to the command's standard input
  (one triple per \<^verbatim>\<open>fprintf\<close>).
\<close>

record pipe_world =
  diagnostics :: "diagnostic list"
  tmp_file_exists :: bool
  child_input :: "(8 word \<times> 8 word \<times> 8 word) list"

definition emit :: "diagnostic \<Rightarrow> pipe_world \<Rightarrow> pipe_world" where
  "emit d w = w\<lparr>diagnostics := diagnostics w @ [d]\<rparr>"

text \<open>The label \<^verbatim>\<open>done\<close>: \<^verbatim>\<open>remove(tmp_file)\<close>; the scratch colormap is released.\<close>

definition pipe_done :: "pipe_world \<Rightarrow> pipe_world" where
  "pipe_done w = w\<lparr>tmp_file_exists := False\<rparr>"

text \<open>The loop that prints the entries \<open>0 .. ncol - 1\<close> to the command.\<close>

function print_loop ::
  "int \<Rightarrow> int \<Rightarrow> Gif_Color list \<Rightarrow> (8 word \<times> 8 word \<times> 8 word) list
   \<Rightarrow> error + (8 word \<times> 8 word \<times> 8 word) list"
where
  "print_loop n i cols out =
     (if i < n then
        (case array_get cols i of
           Inl e \<Rightarrow> Inl e
         | Inr c \<Rightarrow> print_loop n (i + 1) cols (out @ [(red c, green c, blue c)]))
      else Inr out)"
  by pat_completeness auto
termination
  by (relation "measure (\<lambda>(n, i, cols, out). nat (n - i))") auto

declare print_loop.simps [simp del]

text \<open>The loop \<^verbatim>\<open>for (i = 0; i < nc; i++) col[i] = new_cm->col[i]\<close>.\<close>

function copy_loop ::
  "int \<Rightarrow> int \<Rightarrow> Gif_Color list \<Rightarrow> Gif_Color list \<Rightarrow> error + Gif_Color list"
where
  "copy_loop nc i new_col cols =
     (if i < nc then
        (case array_get new_col i of
           Inl e \<Rightarrow> Inl e
         | Inr c \<Rightarrow>
             (case array_set cols i c of
                Inl e \<Rightarrow> Inl e
              | Inr cols' \<Rightarrow> copy_loop nc (i + 1) new_col cols'))
      else Inr cols)"
  by pat_completeness auto
termination
  by (relation "measure (\<lambda>(nc, i, new_col, cols). nat (nc - i))") auto

declare copy_loop.simps [simp del]

definition pipe_color_transformer ::
  "pipe_answers \<Rightarrow> Gif_Colormap \<Rightarrow> string \<Rightarrow> pipe_world \<Rightarrow> error + (Gif_Colormap \<times> pipe_world)"
where
  "pipe_color_transformer a gfcm command w =
     (if \<not> tmp_file_created a then Inl (Fatal (cant @ '' create temporary file!''))
      else if \<not> popen_ok a
      then Inl (Fatal (cant @ '' run color transformation command: %s''))
      else
        (case print_loop (ncol gfcm) 0 (col gfcm) [] of
           Inl e \<Rightarrow> Inl e
         | Inr printed \<Rightarrow>
             let w1 = w\<lparr>tmp_file_exists := True, child_input := printed\<rparr> in
             if pclose_status a < 0
             then Inr (gfcm, pipe_done (emit (Error ''color transformation error: %s'') w1))
             else if pclose_status a > 0
             then Inr (gfcm, pipe_done (emit (Error ''color transformation command failed'') w1))
             else
               (case fopen_result a of
                  None \<Rightarrow>
                    Inr (gfcm, pipe_done
                      (emit (Error ''color transformation command generated no output'') w1))
                | Some at_eof \<Rightarrow>
                    if at_eof
                    then Inr (gfcm, pipe_done
                      (emit (Error ''color transformation command generated no output'') w1))
                    else
                      let w2 = w1\<lparr>diagnostics := diagnostics w1 @ parser_diagnostics a\<rparr> in
                      (case parser_result a of
                         None \<Rightarrow> Inr (gfcm, pipe_done w2)
                       | Some new_cm \<Rightarrow>
                           let (nc, w3) =
                             (if ncol new_cm < ncol gfcm
                              then (ncol gfcm,
                                    emit (Warning ''too few colors in color transformation results'') w2)
                              else if ncol new_cm > ncol gfcm
                              then (ncol new_cm,
                                    emit (Warning ''too many colors in color transformation results'') w2)
                              else (ncol new_cm, w2))
                           in
                           (case copy_loop nc 0 (col new_cm) (col gfcm) of
                              Inl e \<Rightarrow> Inl e
                            | Inr cols \<Rightarrow> Inr (gfcm\<lparr>col := cols\<rparr>, pipe_done w3))))))"


section \<open>Frames and streams\<close>

text \<open>
  Modelled from the spec: the structures \<^verbatim>\<open>Gif_Image\<close>, \<^verbatim>\<open>Gif_Stream\<close> and \<^verbatim>\<open>Gt_Crop\<close>
  are declared in \<^verbatim>\<open>gif.h\<close> and \<^verbatim>\<open>gifsicle.h\<close>. By the spec a frame has a "pixel buffer
  organized as a sequence of rows, each row a sequence of palette-index bytes; width,
  height; left/top offset", a transparent index and a raw or compressed form; the
  offsets and sizes are integers.

  \<open>img\<close> is the row table \<^verbatim>\<open>gfi->img\<close>: \<open>None\<close> for a null pointer, otherwise the rows
  in order (without the null sentinel that ends the table), each row being the bytes
  its pointer refers to. Rows are separate arrays: the model does not follow two row
  pointers into overlapping storage. \<open>compressed\<close> is the compressed representation.
  The field \<^verbatim>\<open>top\<close> is named \<open>top'\<close>.
\<close>

record Gif_Image =
  img :: "8 word list list option"
  compressed :: "8 word list option"
  width :: int
  height :: int
  left :: int
  top' :: int
  transparent :: int

record Gif_Stream =
  images :: "Gif_Image list"
  screen_width :: int
  screen_height :: int

text \<open>The fields \<^verbatim>\<open>x\<close>, \<^verbatim>\<open>y\<close>, \<^verbatim>\<open>w\<close>, \<^verbatim>\<open>h\<close> of a crop are named \<open>crop_x\<close> ... \<open>crop_h\<close>.\<close>

record Gt_Crop =
  crop_x :: int
  crop_y :: int
  crop_w :: int
  crop_h :: int
  left_offset :: int
  top_offset :: int

text \<open>
  Modelled from the spec: the codec's functions are defined in other files. By the spec
  they "decode frame to raw row buffer", "release raw row buffer", "release compressed
  representation" and "recompress raw buffer to compressed form"; a geometric operation
  has to "install the new buffer", and of a frame "row count == height; every row
  length == width". The decoder and the encoder themselves are parameters. In
  \<open>Gif_SetUncompressedImage\<close> row \<open>y\<close> is the \<open>width\<close> bytes of the buffer from
  offset \<open>y * width\<close> on.
\<close>

definition Gif_UncompressImage ::
  "(Gif_Image \<Rightarrow> 8 word list list option) \<Rightarrow> Gif_Image \<Rightarrow> Gif_Image" where
  "Gif_UncompressImage decode gfi = gfi\<lparr>img := decode gfi\<rparr>"

definition Gif_ReleaseUncompressedImage :: "Gif_Image \<Rightarrow> Gif_Image" where
  "Gif_ReleaseUncompressedImage gfi = gfi\<lparr>img := None\<rparr>"

definition Gif_ReleaseCompressedImage :: "Gif_Image \<Rightarrow> Gif_Image" where
  "Gif_ReleaseCompressedImage gfi = gfi\<lparr>compressed := None\<rparr>"

definition Gif_SetUncompressedImage :: "Gif_Image \<Rightarrow> 8 word list \<Rightarrow> Gif_Image" where
  "Gif_SetUncompressedImage gfi new_data =
     gfi\<lparr>img := Some (map (\<lambda>y. take (nat (width gfi)) (drop (y * nat (width gfi)) new_data))
                        [0..<nat (height gfi)])\<rparr>"

definition Gif_FullCompressImage ::
  "(Gif_Stream \<Rightarrow> Gif_Image \<Rightarrow> 8 word list) \<Rightarrow> Gif_Stream \<Rightarrow> Gif_Image \<Rightarrow> Gif_Image" where
  "Gif_FullCompressImage encode gfs gfi = gfi\<lparr>compressed := Some (encode gfs gfi)\<rparr>"

text \<open>The pixel \<^verbatim>\<open>img[y][x]\<close>.\<close>

definition pixel_at :: "8 word list list option \<Rightarrow> int \<Rightarrow> int \<Rightarrow> error + 8 word" where
  "pixel_at table y x =
     (case table of
        None \<Rightarrow> Inl NullPointer
      | Some rows \<Rightarrow> (case array_get rows y of Inl e \<Rightarrow> Inl e | Inr row \<Rightarrow> array_get row x))"

subsection \<open>combine_crop, crop_image\<close>

text \<open>
  \<open>combine_crop\<close> writes the fields \<open>x\<close>, \<open>y\<close>, \<open>w\<close>, \<open>h\<close> of its destination; the
  model returns them in a copy of the source crop.
\<close>

definition combine_crop :: "Gt_Crop \<Rightarrow> Gif_Image \<Rightarrow> Gt_Crop" where
  "combine_crop srccrop gfi =
     (let x0 = crop_x srccrop - left gfi;
          y0 = crop_y srccrop - top' gfi;
          w0 = crop_w srccrop;
          h0 = crop_h srccrop;
          (w1, x1) = (if x0 < 0 then (w0 + x0, 0) else (w0, x0));
          (h1, y1) = (if y0 < 0 then (h0 + y0, 0) else (h0, y0));
          w2 = (if x1 + w1 > width gfi then width gfi - x1 else w1);
          h2 = (if y1 + h1 > height gfi then height gfi - y1 else h1)
      in srccrop\<lparr>crop_x := x1, crop_y := y1, crop_w := w2, crop_h := h2\<rparr>)"

text \<open>
  The loop \<^verbatim>\<open>img[j] = gfi->img[c.y + j] + c.x\<close>: the new row is the old row from
  column \<open>c.x\<close> on.
\<close>

function crop_rows ::
  "8 word list list \<Rightarrow> Gt_Crop \<Rightarrow> int \<Rightarrow> 8 word list list \<Rightarrow> error + 8 word list list"
where
  "crop_rows rows c j new_img =
     (if j < crop_h c then
        (case array_get rows (crop_y c + j) of
           Inl e \<Rightarrow> Inl e
         | Inr row \<Rightarrow>
             if 0 \<le> crop_x c \<and> crop_x c \<le> int (length row)
             then crop_rows rows c (j + 1) (new_img @ [drop (nat (crop_x c)) row])
             else Inl OutOfBounds)
      else Inr new_img)"
  by pat_completeness auto
termination
  by (relation "measure (\<lambda>(rows, c, j, new_img). nat (crop_h c - j))") auto

declare crop_rows.simps [simp del]

text \<open>The common end of the three branches; the result is \<^verbatim>\<open>gfi->img != 0\<close>.\<close>

definition crop_finish :: "Gif_Image \<Rightarrow> 8 word list list option \<Rightarrow> Gt_Crop \<Rightarrow> Gif_Image \<times> bool" where
  "crop_finish gfi new_img c =
     (gfi\<lparr>img := new_img, width := crop_w c, height := crop_h c\<rparr>, new_img \<noteq> None)"

definition crop_image :: "Gif_Image \<Rightarrow> Gt_Crop \<Rightarrow> bool \<Rightarrow> error + (Gif_Image \<times> bool)" where
  "crop_image gfi crop preserve_total_crop =
     (let c = combine_crop crop gfi in
      if crop_w c > 0 \<and> crop_h c > 0 then
        (case img gfi of
           None \<Rightarrow> Inl NullPointer
         | Some rows \<Rightarrow>
             (case crop_rows rows c 0 [] of
                Inl e \<Rightarrow> Inl e
              | Inr new_img \<Rightarrow>
                  Inr (crop_finish
                    (gfi\<lparr>left := left gfi + (crop_x c - left_offset crop),
                         top' := top' gfi + (crop_y c - top_offset crop)\<rparr>)
                    (Some new_img) c)))
      else if preserve_total_crop then
        (case img gfi of
           None \<Rightarrow> Inl NullPointer
         | Some rows \<Rightarrow>
             (case rows of
                [] \<Rightarrow> Inl NullPointer
              | row0 # _ \<Rightarrow>
                  (case array_get row0 0 of
                     Inl e \<Rightarrow> Inl e
                   | Inr p \<Rightarrow>
                       Inr (crop_finish (gfi\<lparr>transparent := uint p\<rparr>) (Some [row0])
                              (c\<lparr>crop_w := 1, crop_h := 1\<rparr>)))))
      else Inr (crop_finish gfi None (c\<lparr>crop_w := 0, crop_h := 0\<rparr>)))"

subsection \<open>flip_image\<close>

text \<open>
  \<^verbatim>\<open>memcpy(buffer, img[y], width)\<close> reads the first \<open>width\<close> bytes of the row.
\<close>

definition read_bytes :: "'a list \<Rightarrow> int \<Rightarrow> error + 'a list" where
  "read_bytes row n =
     (if 0 \<le> n \<and> n \<le> int (length row) then Inr (take (nat n) row) else Inl OutOfBounds)"

text \<open>
  The loop \<^verbatim>\<open>for (x = 0; x < width; x++) *trav-- = buffer[x]\<close>, in which \<open>trav\<close>
  starts at \<^verbatim>\<open>img[y] + width - 1\<close>: the pointer is at column \<open>width - 1 - x\<close>.
\<close>

function flip_row :: "int \<Rightarrow> int \<Rightarrow> 8 word list \<Rightarrow> 8 word list \<Rightarrow> error + 8 word list" where
  "flip_row w x buffer row =
     (if x < w then
        (case array_get buffer x of
           Inl e \<Rightarrow> Inl e
         | Inr b \<Rightarrow>
             (case array_set row (w - 1 - x) b of
                Inl e \<Rightarrow> Inl e
              | Inr row' \<Rightarrow> flip_row w (x + 1) buffer row'))
      else Inr row)"
  by pat_completeness auto
termination
  by (relation "measure (\<lambda>(w, x, buffer, row). nat (w - x))") auto

declare flip_row.simps [simp del]

function flip_rows :: "int \<Rightarrow> int \<Rightarrow> int \<Rightarrow> 8 word list list \<Rightarrow> error + 8 word list list" where
  "flip_rows w h y rows =
     (if y < h then
        (case array_get rows y of
           Inl e \<Rightarrow> Inl e
         | Inr row \<Rightarrow>
             (case read_bytes row w of
                Inl e \<Rightarrow> Inl e
              | Inr buffer \<Rightarrow>
                  (case flip_row w 0 buffer row of
                     Inl e \<Rightarrow> Inl e
                   | Inr row' \<Rightarrow> flip_rows w h (y + 1) (rows[nat y := row']))))
      else Inr rows)"
  by pat_completeness auto
termination
  by (relation "measure (\<lambda>(w, h, y, rows). nat (h - y))") auto

declare flip_rows.simps [simp del]

text \<open>The loop \<^verbatim>\<open>for (y = 0; y < height; y++) img[y] = buffer[height - y - 1]\<close>.\<close>

function flip_table ::
  "int \<Rightarrow> int \<Rightarrow> 8 word list list \<Rightarrow> 8 word list list \<Rightarrow> error + 8 word list list"
where
  "flip_table h y buffer rows =
     (if y < h then
        (case array_get buffer (h - y - 1) of
           Inl e \<Rightarrow> Inl e
         | Inr row \<Rightarrow>
             (case array_set rows y row of
                Inl e \<Rightarrow> Inl e
              | Inr rows' \<Rightarrow> flip_table h (y + 1) buffer rows'))
      else Inr rows)"
  by pat_completeness auto
termination
  by (relation "measure (\<lambda>(h, y, buffer, rows). nat (h - y))") auto

declare flip_table.simps [simp del]

text \<open>
  With a null row table the loops dereference it as soon as they run once, that is
  when \<open>height\<close> is positive.
\<close>

definition flip_image :: "Gif_Image \<Rightarrow> int \<Rightarrow> int \<Rightarrow> bool \<Rightarrow> error + Gif_Image" where
  "flip_image gfi screen_w screen_h is_vert =
     (let w = width gfi; h = height gfi in
      if \<not> is_vert then
        (case img gfi of
           None \<Rightarrow>
             if 0 < h then Inl NullPointer
             else Inr (gfi\<lparr>left := screen_w - (left gfi + w)\<rparr>)
         | Some rows \<Rightarrow>
             (case flip_rows w h 0 rows of
                Inl e \<Rightarrow> Inl e
              | Inr rows' \<Rightarrow>
                  Inr (gfi\<lparr>img := Some rows', left := screen_w - (left gfi + w)\<rparr>)))
      else
        (case img gfi of
           None \<Rightarrow>
             if 0 < h then Inl NullPointer
             else Inr (gfi\<lparr>top' := screen_h - (top' gfi + h)\<rparr>)
         | Some rows \<Rightarrow>
             (case read_bytes rows h of
                Inl e \<Rightarrow> Inl e
              | Inr buffer \<Rightarrow>
                  (case flip_table h 0 buffer rows of
                     Inl e \<Rightarrow> Inl e
                   | Inr rows' \<Rightarrow>
                       Inr (gfi\<lparr>img := Some rows', top' := screen_h - (top' gfi + h)\<rparr>)))))"

subsection \<open>rotate_image\<close>










subsection \<open>scale_image\<close>

text \<open>
  The fixed-point macros. A shift to the left by 10 is a multiplication by 1024, a
  shift to the right of an \<^verbatim>\<open>int\<close> the division by 1024 that rounds down.
  \<^verbatim>\<open>INT_MAX\<close> and \<^verbatim>\<open>INT_MIN\<close> are the ones of a 32-bit \<^verbatim>\<open>int\<close>.
\<close>

definition SCALE :: "int \<Rightarrow> int" where
  "SCALE d = push_bit 10 d"

definition UNSCALE_NOROUND :: "int \<Rightarrow> int" where
  "UNSCALE_NOROUND d = drop_bit 10 d"

definition UNSCALE :: "int \<Rightarrow> int" where
  "UNSCALE d = UNSCALE_NOROUND (d + push_bit 9 1)"

definition SCALE_FACTOR :: int where
  "SCALE_FACTOR = SCALE 1"

definition INT_MAX :: int where
  "INT_MAX = 2147483647"

definition INT_MIN :: int where
  "INT_MIN = - 2147483648"

text \<open>
  \<open>scale_image\<close> computes in \<^verbatim>\<open>int\<close>, and its products leave the range of a 32-bit
  \<^verbatim>\<open>int\<close> for frames that its size check lets through. The behaviour of the code is
  undefined when the value of an \<^verbatim>\<open>int\<close> expression is outside of the range, when a
  negative value or one whose product with 1024 is outside of the range is shifted to
  the left, and when a \<^verbatim>\<open>double\<close> whose integral part is outside of the range is
  converted: the model checks every such expression, in the order of the code, and
  returns \<open>Inl IntOverflow\<close> at the first one whose value is not defined.
\<close>

definition int_range :: "int \<Rightarrow> bool" where
  "int_range v \<longleftrightarrow> INT_MIN \<le> v \<and> v \<le> INT_MAX"

definition SCALE_defined :: "int \<Rightarrow> bool" where
  "SCALE_defined d \<longleftrightarrow> 0 \<le> d \<and> int_range (SCALE d)"

definition UNSCALE_defined :: "int \<Rightarrow> bool" where
  "UNSCALE_defined d \<longleftrightarrow> int_range d \<and> int_range (d + push_bit 9 1)"

text \<open>
  A \<^verbatim>\<open>double\<close> is modelled by a real number: the arithmetic of the model is exact,
  that of the code rounds to the nearest \<^verbatim>\<open>double\<close>. They agree where every
  intermediate value is representable, as for the factors 1 and 0.5 of the theorems
  below. The conversion \<^verbatim>\<open>(int)\<close> truncates towards zero.
\<close>

definition int_of_double :: "real \<Rightarrow> int" where
  "int_of_double r = (if 0 \<le> r then floor r else ceiling r)"

text \<open>The locals of \<open>scale_image\<close> that its loops read and do not change.\<close>

record scale_ctx =
  in_img :: "8 word list list option"
  in_width :: int
  in_height :: int
  in_left :: int
  scaled_xstep :: int
  scaled_ystep :: int
  new_left :: int
  new_top :: int
  new_right :: int
  new_bottom :: int
  new_width :: int

text \<open>
  The innermost loop
  \<^verbatim>\<open>for (yinc = 0; yinc < y_delta; yinc++) out_data[yinc * new_width] = in_line[i]\<close>.
  \<open>out_data\<close> is the index in \<open>new_data\<close> the pointer refers to.
\<close>

function scale_fill ::
  "8 word list \<Rightarrow> int \<Rightarrow> int \<Rightarrow> int \<Rightarrow> int \<Rightarrow> 8 word list \<Rightarrow> int \<Rightarrow> error + 8 word list"
where
  "scale_fill new_data out_data nw y_delta yinc in_line i =
     (if yinc < y_delta then
        if \<not> int_range (yinc * nw) then Inl IntOverflow
        else
          (case array_get in_line i of
             Inl e \<Rightarrow> Inl e
           | Inr p \<Rightarrow>
               (case array_set new_data (out_data + yinc * nw) p of
                  Inl e \<Rightarrow> Inl e
                | Inr new_data' \<Rightarrow> scale_fill new_data' out_data nw y_delta (yinc + 1) in_line i))
      else Inr new_data)"
  by pat_completeness auto
termination
  by (relation "measure (\<lambda>(new_data, out_data, nw, y_delta, yinc, in_line, i). nat (y_delta - yinc))")
    auto

declare scale_fill.simps [simp del]

text \<open>The loop \<^verbatim>\<open>for (; x_delta > 0; new_x++, x_delta--, out_data++)\<close>.\<close>

function scale_span ::
  "int \<Rightarrow> int \<Rightarrow> 8 word list \<Rightarrow> int \<Rightarrow> 8 word list \<Rightarrow> int \<Rightarrow> int \<Rightarrow> int
   \<Rightarrow> error + (8 word list \<times> int \<times> int)"
where
  "scale_span nw y_delta in_line i new_data new_x x_delta out_data =
     (if x_delta > 0 then
        (case scale_fill new_data out_data nw y_delta 0 in_line i of
           Inl e \<Rightarrow> Inl e
         | Inr new_data' \<Rightarrow>
             if \<not> int_range (new_x + 1) then Inl IntOverflow
             else
               scale_span nw y_delta in_line i new_data' (new_x + 1) (x_delta - 1) (out_data + 1))
      else Inr (new_data, new_x, out_data))"
  by pat_completeness auto
termination
  by (relation "measure (\<lambda>(nw, y_delta, in_line, i, new_data, new_x, x_delta, out_data). nat x_delta)")
    auto

declare scale_span.simps [simp del]

text \<open>The loop over the columns \<open>i\<close> of one source row.\<close>

function scale_columns ::
  "scale_ctx \<Rightarrow> int \<Rightarrow> 8 word list \<Rightarrow> int \<Rightarrow> 8 word list \<Rightarrow> int \<Rightarrow> int \<Rightarrow> int
   \<Rightarrow> error + 8 word list"
where
  "scale_columns ctx y_delta in_line i new_data new_x scaled_new_x out_data =
     (if i < in_width ctx then
        (let sx0 = scaled_new_x + scaled_xstep ctx
         in
         if \<not> int_range sx0 \<or> (i = in_width ctx - 1 \<and> \<not> SCALE_defined (new_right ctx))
         then Inl IntOverflow
         else
           let sx = (if i = in_width ctx - 1 then SCALE (new_right ctx) else sx0)
           in
           if \<not> SCALE_defined new_x \<or> \<not> UNSCALE_defined (sx - SCALE new_x)
           then Inl IntOverflow
           else
             let x_delta = UNSCALE (sx - SCALE new_x)
             in
             (case scale_span (new_width ctx) y_delta in_line i new_data new_x x_delta out_data of
                Inl e \<Rightarrow> Inl e
              | Inr (new_data', new_x', out_data') \<Rightarrow>
                  scale_columns ctx y_delta in_line (i + 1) new_data' new_x' sx out_data'))
      else Inr new_data)"
  by pat_completeness auto
termination
  by (relation "measure (\<lambda>(ctx, y_delta, in_line, i, new_data, new_x, scaled_new_x, out_data).
        nat (in_width ctx - i))") auto

declare scale_columns.simps [simp del]

text \<open>The loop over the source rows \<open>j\<close>; \<^verbatim>\<open>continue\<close> goes on with the next row.\<close>

function scale_rows ::
  "scale_ctx \<Rightarrow> int \<Rightarrow> 8 word list \<Rightarrow> int \<Rightarrow> int \<Rightarrow> error + 8 word list"
where
  "scale_rows ctx j new_data new_y scaled_new_y =
     (if j < in_height ctx then
        (case in_img ctx of
           None \<Rightarrow> Inl NullPointer
         | Some rows \<Rightarrow>
             (case array_get rows j of
                Inl e \<Rightarrow> Inl e
              | Inr in_line \<Rightarrow>
                  let sy0 = scaled_new_y + scaled_ystep ctx
                  in
                  if \<not> int_range sy0 \<or> (j = in_height ctx - 1 \<and> \<not> SCALE_defined (new_bottom ctx))
                  then Inl IntOverflow
                  else
                    let sy = (if j = in_height ctx - 1 then SCALE (new_bottom ctx) else sy0)
                    in
                    if \<not> int_range (new_y + 1) \<or> \<not> SCALE_defined (new_y + 1) then Inl IntOverflow
                    else if sy < SCALE (new_y + 1) then scale_rows ctx (j + 1) new_data new_y sy
                    else if \<not> SCALE_defined new_y \<or> \<not> UNSCALE_defined (sy - SCALE new_y)
                    then Inl IntOverflow
                    else
                      let y_delta = UNSCALE (sy - SCALE new_y);
                          new_x = new_left ctx;
                          scaled_new_x = scaled_xstep ctx * in_left ctx;
                          out_data = (new_y - new_top ctx) * new_width ctx + (new_x - new_left ctx)
                      in
                      if \<not> int_range scaled_new_x \<or> \<not> int_range (new_y - new_top ctx)
                         \<or> \<not> int_range ((new_y - new_top ctx) * new_width ctx)
                         \<or> \<not> int_range (new_x - new_left ctx) \<or> \<not> int_range out_data
                      then Inl IntOverflow
                      else
                        (case scale_columns ctx y_delta in_line 0 new_data new_x scaled_new_x
                                out_data of
                           Inl e \<Rightarrow> Inl e
                         | Inr new_data' \<Rightarrow>
                             if \<not> int_range (new_y + y_delta) then Inl IntOverflow
                             else scale_rows ctx (j + 1) new_data' (new_y + y_delta) sy)))
      else Inr new_data)"
  by pat_completeness auto
termination
  by (relation "measure (\<lambda>(ctx, j, new_data, new_y, scaled_new_y). nat (in_height ctx - j))")
    auto

declare scale_rows.simps [simp del]

text \<open>
  \<open>uninit\<close> gives the content of the cells of a fresh array, which \<^verbatim>\<open>Gif_NewArray\<close>
  does not initialise; \<open>decode\<close> and \<open>encode\<close> are the codec. The products and sums of
  the four edges are computed before the size check, the product
  \<^verbatim>\<open>new_width * new_height\<close> after it. The new edges are the quotients by 1024 of values
  in the range, so that their differences and \<^verbatim>\<open>new_left + 1\<close>, \<^verbatim>\<open>new_top + 1\<close> are in
  the range too.
\<close>

definition scale_image ::
  "(Gif_Image \<Rightarrow> 8 word list list option) \<Rightarrow> (Gif_Stream \<Rightarrow> Gif_Image \<Rightarrow> 8 word list)
   \<Rightarrow> (nat \<Rightarrow> 8 word) \<Rightarrow> Gif_Stream \<Rightarrow> Gif_Image \<Rightarrow> real \<Rightarrow> real \<Rightarrow> error + Gif_Image"
where
  "scale_image decode encode uninit gfs gfi xfactor yfactor =
     (let was_compressed = (img gfi = None);
          xstep = int_of_double (real_of_int SCALE_FACTOR * xfactor + 0.5);
          ystep = int_of_double (real_of_int SCALE_FACTOR * yfactor + 0.5)
      in
      if \<not> int_range xstep \<or> \<not> int_range ystep
         \<or> \<not> int_range (xstep * left gfi) \<or> \<not> UNSCALE_defined (xstep * left gfi)
         \<or> \<not> int_range (ystep * top' gfi) \<or> \<not> UNSCALE_defined (ystep * top' gfi)
         \<or> \<not> int_range (left gfi + width gfi)
         \<or> \<not> int_range (xstep * (left gfi + width gfi))
         \<or> \<not> UNSCALE_defined (xstep * (left gfi + width gfi))
         \<or> \<not> int_range (top' gfi + height gfi)
         \<or> \<not> int_range (ystep * (top' gfi + height gfi))
         \<or> \<not> UNSCALE_defined (ystep * (top' gfi + height gfi))
      then Inl IntOverflow
      else
        let nleft = UNSCALE (xstep * left gfi);
            ntop = UNSCALE (ystep * top' gfi);
            nright0 = UNSCALE (xstep * (left gfi + width gfi));
            nbottom0 = UNSCALE (ystep * (top' gfi + height gfi));
            (nwidth, nright) =
              (if nright0 - nleft \<le> 0 then (1, nleft + 1) else (nright0 - nleft, nright0));
            (nheight, nbottom) =
              (if nbottom0 - ntop \<le> 0 then (1, ntop + 1) else (nbottom0 - ntop, nbottom0))
        in
        if nwidth > UNSCALE_NOROUND INT_MAX \<or> nheight > UNSCALE_NOROUND INT_MAX
        then Inl (Fatal ''new image size is too big for me to handle'')
        else
          let gfi1 = (if was_compressed then Gif_UncompressImage decode gfi else gfi)
          in
          if \<not> int_range (nwidth * nheight) then Inl IntOverflow
          else
            let new_data = map uninit [0..<nat (nwidth * nheight)];
                ctx = \<lparr>in_img = img gfi1, in_width = width gfi1, in_height = height gfi1,
                       in_left = left gfi1, scaled_xstep = xstep, scaled_ystep = ystep,
                       new_left = nleft, new_top = ntop, new_right = nright, new_bottom = nbottom,
                       new_width = nwidth\<rparr>
            in
            (case scale_rows ctx 0 new_data ntop (ystep * top' gfi1) of
               Inl e \<Rightarrow> Inl e
             | Inr new_data' \<Rightarrow>
                 let gfi2 = Gif_ReleaseCompressedImage (Gif_ReleaseUncompressedImage gfi1);
                     gfi3 = gfi2\<lparr>width := nwidth, height := nheight,
                                 left := UNSCALE (xstep * left gfi2),
                                 top' := UNSCALE (ystep * top' gfi2)\<rparr>;
                     gfi4 = Gif_SetUncompressedImage gfi3 new_data'
                 in
                 Inr (if was_compressed
                      then Gif_ReleaseUncompressedImage (Gif_FullCompressImage encode gfs gfi4)
                      else gfi4)))"

subsection \<open>resize_stream\<close>

text \<open>The loop over the frames; each one is scaled in place.\<close>

function resize_loop ::
  "(Gif_Image \<Rightarrow> 8 word list list option) \<Rightarrow> (Gif_Stream \<Rightarrow> Gif_Image \<Rightarrow> 8 word list)
   \<Rightarrow> (nat \<Rightarrow> 8 word) \<Rightarrow> real \<Rightarrow> real \<Rightarrow> int \<Rightarrow> Gif_Stream \<Rightarrow> error + Gif_Stream"
where
  "resize_loop decode encode uninit xfactor yfactor i gfs =
     (if i < int (length (images gfs)) then
        (case array_get (images gfs) i of
           Inl e \<Rightarrow> Inl e
         | Inr gfi \<Rightarrow>
             (case scale_image decode encode uninit gfs gfi xfactor yfactor of
                Inl e \<Rightarrow> Inl e
              | Inr gfi' \<Rightarrow>
                  resize_loop decode encode uninit xfactor yfactor (i + 1)
                    (gfs\<lparr>images := (images gfs)[nat i := gfi']\<rparr>)))
      else Inr gfs)"
  by pat_completeness auto
termination
  by (relation "measure (\<lambda>(decode, encode, uninit, xfactor, yfactor, i, gfs).
        nat (int (length (images gfs)) - i))") auto

declare resize_loop.simps [simp del]

text \<open>
  \<^verbatim>\<open>Gif_CalculateScreenSize\<close> is defined in another file; it is the parameter
  \<open>calculate_screen_size\<close>. The quotient of a \<^verbatim>\<open>double\<close> by zero is an infinity or not
  a number, which the reals do not have: where a target is set and the screen's
  dimension is zero the model stops with \<open>DivisionByZero\<close>.
\<close>

definition resize_stream ::
  "(Gif_Stream \<Rightarrow> Gif_Stream) \<Rightarrow> (Gif_Image \<Rightarrow> 8 word list list option)
   \<Rightarrow> (Gif_Stream \<Rightarrow> Gif_Image \<Rightarrow> 8 word list) \<Rightarrow> (nat \<Rightarrow> 8 word)
   \<Rightarrow> Gif_Stream \<Rightarrow> int \<Rightarrow> int \<Rightarrow> bool \<Rightarrow> error + Gif_Stream"
where
  "resize_stream calculate_screen_size decode encode uninit gfs0 nwidth nheight fit =
     (let gfs = calculate_screen_size gfs0;
          xfactor0 = real_of_int nwidth / real_of_int (screen_width gfs);
          yfactor0 = real_of_int nheight / real_of_int (screen_height gfs)
      in
      if nwidth \<le> 0 \<and> nheight \<le> 0 then Inr gfs
      else if (0 < nwidth \<and> screen_width gfs = 0) \<or> (0 < nheight \<and> screen_height gfs = 0)
      then Inl DivisionByZero
      else
        let (xfactor1, yfactor1, nwidth1, nheight1) =
              (if nwidth \<le> 0
               then (yfactor0, yfactor0,
                     int_of_double (real_of_int (screen_width gfs) * yfactor0 + 0.5), nheight)
               else if nheight \<le> 0
               then (xfactor0, xfactor0, nwidth,
                     int_of_double (real_of_int (screen_height gfs) * xfactor0 + 0.5))
               else (xfactor0, yfactor0, nwidth, nheight))
        in
        if fit \<and> nwidth1 \<ge> screen_width gfs \<and> nheight1 \<ge> screen_height gfs then Inr gfs
        else
          let (xfactor, yfactor, nwidth2, nheight2) =
                (if fit \<and> xfactor1 < yfactor1
                 then (xfactor1, xfactor1, nwidth1,
                       int_of_double (real_of_int (screen_height gfs) * xfactor1 + 0.5))
                 else if fit \<and> yfactor1 < xfactor1
                 then (yfactor1, yfactor1,
                       int_of_double (real_of_int (screen_width gfs) * yfactor1 + 0.5), nheight1)
                 else (xfactor1, yfactor1, nwidth1, nheight1))
          in
          (case resize_loop decode encode uninit xfactor yfactor 0 gfs of
             Inl e \<Rightarrow> Inl e
           | Inr gfs' \<Rightarrow> Inr (gfs'\<lparr>screen_width := nwidth2, screen_height := nheight2\<rparr>)))"

section \<open>Reference definitions\<close>

text \<open>
  The recolouring as the spec words it: a change matches the entry \<open>i\<close> if its old
  colour has no pixel slot and the same red, green and blue as the entry, or has a
  pixel slot equal to \<open>i\<close>; the entry becomes the new colour of the first change that
  matches, and stays as it is when none does.
\<close>

definition change_matches :: "Gif_Color \<Rightarrow> int \<Rightarrow> Gt_ColorChange \<Rightarrow> bool" where
  "change_matches c i change \<longleftrightarrow>
     (haspixel (old_color change) = 0 \<and> red (old_color change) = red c
        \<and> green (old_color change) = green c \<and> blue (old_color change) = blue c)
     \<or> (haspixel (old_color change) \<noteq> 0 \<and> pixel (old_color change) = word_of_int i)"

definition recolor_entry :: "Gt_ColorChange list \<Rightarrow> int \<Rightarrow> Gif_Color \<Rightarrow> Gif_Color" where
  "recolor_entry changes i c =
     (case find (change_matches c i) changes of None \<Rightarrow> c | Some change \<Rightarrow> new_color change)"

definition recolored :: "Gt_ColorChange list \<Rightarrow> int \<Rightarrow> int \<Rightarrow> Gif_Color list \<Rightarrow> Gif_Color list" where
  "recolored changes lo hi cols =
     map (\<lambda>k. if lo \<le> int k \<and> int k < hi then recolor_entry changes (int k) (cols ! k) else cols ! k)
       [0..<length cols]"

text \<open>
  A frame in raw form, as the spec's invariant has it ("row count == height"): the row
  table is not null and has \<open>height\<close> rows, each of at least \<open>width\<close> bytes (after
  a crop a row pointer has more bytes behind it than the width).
\<close>

definition raw_frame :: "Gif_Image \<Rightarrow> bool" where
  "raw_frame gfi \<longleftrightarrow>
     0 \<le> width gfi \<and> 0 \<le> height gfi
     \<and> (case img gfi of
          None \<Rightarrow> False
        | Some rows \<Rightarrow>
            int (length rows) = height gfi
            \<and> list_all (\<lambda>row. width gfi \<le> int (length row)) rows)"

text \<open>A row with its first \<open>w\<close> bytes in reverse order.\<close>

definition reversed_row :: "int \<Rightarrow> 'a list \<Rightarrow> 'a list" where
  "reversed_row w row = rev (take (nat w) row) @ drop (nat w) row"

text \<open>
  The column \<open>x\<close> of a row table of \<open>h\<close> rows, read from the bottom row up and from
  the top row down.
\<close>

definition column_up :: "'a list list \<Rightarrow> nat \<Rightarrow> nat \<Rightarrow> 'a list" where
  "column_up rows h x = map (\<lambda>y. rows ! y ! x) (rev [0..<h])"

definition column_down :: "'a list list \<Rightarrow> nat \<Rightarrow> nat \<Rightarrow> 'a list" where
  "column_down rows h x = map (\<lambda>y. rows ! y ! x) [0..<h]"

text \<open>Colours for the examples.\<close>

definition rgb :: "8 word \<Rightarrow> 8 word \<Rightarrow> 8 word \<Rightarrow> Gif_Color" where
  "rgb r g b = \<lparr>haspixel = 0, red = r, green = g, blue = b, pixel = 0\<rparr>"

section \<open>Verification\<close>

subsection \<open>The transform list\<close>

lemma link_at_tail_append: "link_at_tail trav rest xform = (trav # rest) @ [xform]"
  by (induction rest arbitrary: trav) simp_all

lemma delete_loop_filter:
  "delete_loop f kept list = kept @ filter (\<lambda>n. func n \<noteq> f) list"
  by (induction list arbitrary: kept) simp_all

text \<open>
  Claim C9. \<open>append_color_transform\<close> returns the list with the new node after all the
  nodes it had, in their order; \<open>delete_color_transforms\<close> returns the nodes whose
  function differs from the given one, in their order, whatever their payload: a node
  is removed exactly when its function is the given one. The result may be empty.
\<close>

theorem transform_list_append_delete:
  "append_color_transform list f d = list @ [\<lparr>func = f, data = d\<rparr>]
   \<and> delete_color_transforms list f = filter (\<lambda>n. func n \<noteq> f) list
   \<and> delete_color_transforms (replicate k \<lparr>func = f, data = d\<rparr>) f = []"
  by (cases list) (simp_all add: append_color_transform_def delete_color_transforms_def
      link_at_tail_append delete_loop_filter)

subsection \<open>The recolour transform\<close>

lemma change_scan_entry:
  "0 \<le> i \<Longrightarrow> i < int (length cols) \<Longrightarrow>
   change_scan cols i changes = Inr (cols[nat i := recolor_entry changes i (cols ! nat i)])"
  by (induction changes)
    (auto simp: recolor_entry_def change_matches_def array_get_def array_set_def GIF_COLOREQ_def)

lemma color_change_loop_recolored:
  "0 \<le> i \<Longrightarrow> n \<le> int (length cols) \<Longrightarrow>
   color_change_loop changes n i cols = Inr (recolored changes i n cols)"
proof (induction changes n i cols rule: color_change_loop.induct)
  case (1 changes n i cols)
  show ?case
  proof (cases "i < n")
    case False
    then have "recolored changes i n cols = cols"
      by (auto simp: recolored_def intro!: nth_equalityI)
    with False show ?thesis
      by (simp add: color_change_loop.simps [of changes n i cols])
  next
    case True
    define cols' where "cols' = cols[nat i := recolor_entry changes i (cols ! nat i)]"
    have scan: "change_scan cols i changes = Inr cols'"
      using "1.prems" True by (simp add: change_scan_entry cols'_def)
    have "color_change_loop changes n (i + 1) cols' = Inr (recolored changes (i + 1) n cols')"
      using "1.IH" [OF True scan] "1.prems" by (simp add: cols'_def)
    moreover have "recolored changes (i + 1) n cols' = recolored changes i n cols"
      using "1.prems" True
      by (auto simp: recolored_def cols'_def nth_list_update intro!: nth_equalityI)
    ultimately show ?thesis
      using True scan by (simp add: color_change_loop.simps [of changes n i cols])
  qed
qed

lemma color_change_transformer_recolored:
  "ncol gfcm \<le> int (length (col gfcm)) \<Longrightarrow>
   color_change_transformer gfcm changes =
     Inr (gfcm\<lparr>col := recolored changes 0 (ncol gfcm) (col gfcm)\<rparr>)"
  by (simp add: color_change_transformer_def color_change_loop_recolored)

lemma last_node_snoc: "last_node (xs @ [x]) = Some x"
  by (induction xs rule: last_node.induct) simp_all

lemma append_color_transform_snoc:
  "append_color_transform list f d = list @ [\<lparr>func = f, data = d\<rparr>]"
  by (cases list) (simp_all add: append_color_transform_def link_at_tail_append)

lemma append_color_change_new_node:
  "(case last_node list of None \<Rightarrow> True | Some x \<Rightarrow> func x \<noteq> FN_color_change_transformer) \<Longrightarrow>
   append_color_change list old new =
     Inr (list @ [\<lparr>func = FN_color_change_transformer,
                   data = ColorChanges [\<lparr>old_color = old, new_color = new\<rparr>]\<rparr>])"
  by (auto simp: append_color_change_def append_color_transform_snoc split: option.splits)

lemma append_color_change_merge:
  "append_color_change
     (list @ [\<lparr>func = FN_color_change_transformer, data = ColorChanges (c # cs)\<rparr>]) old new =
   Inr (list @ [\<lparr>func = FN_color_change_transformer,
                 data = ColorChanges ((c # cs) @ [\<lparr>old_color = old, new_color = new\<rparr>])\<rparr>])"
  by (simp add: append_color_change_def last_node_snoc link_at_tail_append)

text \<open>
  Claim C3. On a colormap whose \<open>ncol\<close> entries lie in its array,
  \<open>color_change_transformer\<close> returns, and every entry \<open>k\<close> below \<open>ncol\<close> is the new
  colour of the first change, in the order of the list, that matches it (the old colour
  has no pixel slot and the entry's red, green and blue, or has the pixel slot \<open>k\<close>);
  an entry no change matches, and the cells from \<open>ncol\<close> on, are as before. In
  particular: on a pipeline that does not end in a recolour node, two calls of
  \<open>append_color_change\<close>, for \<open>rc\<close> to \<open>bc\<close> and then for \<open>rc\<close> to \<open>gc\<close>, where
  \<open>rc\<close> has no pixel slot, add one recolour node with the two changes in this order,
  and this node turns every entry that equals \<open>rc\<close> in red, green and blue into \<open>bc\<close>.
\<close>

theorem recolor_first_match_wins:
  assumes "ncol gfcm \<le> int (length (col gfcm))"
  shows "(\<exists>cols'. color_change_transformer gfcm changes = Inr (gfcm\<lparr>col := cols'\<rparr>)
            \<and> length cols' = length (col gfcm)
            \<and> (\<forall>k < length (col gfcm). cols' ! k =
                 (if int k < ncol gfcm then
                    (case find (change_matches (col gfcm ! k) (int k)) changes of
                       None \<Rightarrow> col gfcm ! k
                     | Some change \<Rightarrow> new_color change)
                  else col gfcm ! k)))
         \<and> (haspixel rc = 0
              \<and> (case last_node list of None \<Rightarrow> True
                  | Some x \<Rightarrow> func x \<noteq> FN_color_change_transformer) \<longrightarrow>
            (\<exists>list1 cols'.
               append_color_change list rc bc = Inr list1
               \<and> append_color_change list1 rc gc =
                   Inr (list @ [\<lparr>func = FN_color_change_transformer,
                                 data = ColorChanges [\<lparr>old_color = rc, new_color = bc\<rparr>,
                                                      \<lparr>old_color = rc, new_color = gc\<rparr>]\<rparr>])
               \<and> color_change_transformer gfcm
                     [\<lparr>old_color = rc, new_color = bc\<rparr>, \<lparr>old_color = rc, new_color = gc\<rparr>] =
                   Inr (gfcm\<lparr>col := cols'\<rparr>)
               \<and> (\<forall>k < length (col gfcm). int k < ncol gfcm \<and> GIF_COLOREQ (col gfcm ! k) rc \<longrightarrow>
                     cols' ! k = bc)))"
proof (intro conjI impI)
  show "\<exists>cols'. color_change_transformer gfcm changes = Inr (gfcm\<lparr>col := cols'\<rparr>)
            \<and> length cols' = length (col gfcm)
            \<and> (\<forall>k < length (col gfcm). cols' ! k =
                 (if int k < ncol gfcm then
                    (case find (change_matches (col gfcm ! k) (int k)) changes of
                       None \<Rightarrow> col gfcm ! k
                     | Some change \<Rightarrow> new_color change)
                  else col gfcm ! k))"
    using assms
    by (intro exI [of _ "recolored changes 0 (ncol gfcm) (col gfcm)"])
      (simp add: color_change_transformer_recolored recolored_def recolor_entry_def)
next
  assume h: "haspixel rc = 0
    \<and> (case last_node list of None \<Rightarrow> True | Some x \<Rightarrow> func x \<noteq> FN_color_change_transformer)"
  let ?c1 = "\<lparr>old_color = rc, new_color = bc\<rparr>" and ?c2 = "\<lparr>old_color = rc, new_color = gc\<rparr>"
  let ?l1 = "list @ [\<lparr>func = FN_color_change_transformer, data = ColorChanges [?c1]\<rparr>]"
  have a1: "append_color_change list rc bc = Inr ?l1"
    using h by (simp add: append_color_change_new_node)
  have a2: "append_color_change ?l1 rc gc =
      Inr (list @ [\<lparr>func = FN_color_change_transformer, data = ColorChanges [?c1, ?c2]\<rparr>])"
    using append_color_change_merge [of list ?c1 "[]" rc gc] by simp
  have a3: "color_change_transformer gfcm [?c1, ?c2] =
      Inr (gfcm\<lparr>col := recolored [?c1, ?c2] 0 (ncol gfcm) (col gfcm)\<rparr>)"
    using assms by (rule color_change_transformer_recolored)
  have a4: "\<forall>k < length (col gfcm). int k < ncol gfcm \<and> GIF_COLOREQ (col gfcm ! k) rc \<longrightarrow>
      recolored [?c1, ?c2] 0 (ncol gfcm) (col gfcm) ! k = bc"
    using h by (simp add: recolored_def recolor_entry_def change_matches_def GIF_COLOREQ_def)
  show "\<exists>list1 cols'.
               append_color_change list rc bc = Inr list1
               \<and> append_color_change list1 rc gc =
                   Inr (list @ [\<lparr>func = FN_color_change_transformer,
                                 data = ColorChanges [?c1, ?c2]\<rparr>])
               \<and> color_change_transformer gfcm [?c1, ?c2] = Inr (gfcm\<lparr>col := cols'\<rparr>)
               \<and> (\<forall>k < length (col gfcm). int k < ncol gfcm \<and> GIF_COLOREQ (col gfcm ! k) rc \<longrightarrow>
                     cols' ! k = bc)"
    using a1 a2 a3 a4 by blast
qed

text \<open>
  The theorem at a colormap of a red and a grey entry, with the changes red to blue and
  red to green registered on the empty pipeline: the red entry becomes blue.
\<close>

theorem recolor_first_match_wins_witness:
  "ncol \<lparr>ncol = 2, col = [rgb 255 0 0, rgb 7 7 7]\<rparr>
     \<le> int (length (col \<lparr>ncol = 2, col = [rgb 255 0 0, rgb 7 7 7]\<rparr>))
   \<and> haspixel (rgb 255 0 0) = 0
   \<and> last_node ([] :: Gt_ColorTransform list) = None
   \<and> append_color_change [] (rgb 255 0 0) (rgb 0 0 255) =
       Inr [\<lparr>func = FN_color_change_transformer,
             data = ColorChanges [\<lparr>old_color = rgb 255 0 0, new_color = rgb 0 0 255\<rparr>]\<rparr>]
   \<and> append_color_change
         [\<lparr>func = FN_color_change_transformer,
           data = ColorChanges [\<lparr>old_color = rgb 255 0 0, new_color = rgb 0 0 255\<rparr>]\<rparr>]
         (rgb 255 0 0) (rgb 0 255 0) =
       Inr [\<lparr>func = FN_color_change_transformer,
             data = ColorChanges [\<lparr>old_color = rgb 255 0 0, new_color = rgb 0 0 255\<rparr>,
                                  \<lparr>old_color = rgb 255 0 0, new_color = rgb 0 255 0\<rparr>]\<rparr>]
   \<and> color_change_transformer \<lparr>ncol = 2, col = [rgb 255 0 0, rgb 7 7 7]\<rparr>
         [\<lparr>old_color = rgb 255 0 0, new_color = rgb 0 0 255\<rparr>,
          \<lparr>old_color = rgb 255 0 0, new_color = rgb 0 255 0\<rparr>] =
       Inr \<lparr>ncol = 2, col = [rgb 0 0 255, rgb 7 7 7]\<rparr>"
  using recolor_first_match_wins [of "\<lparr>ncol = 2, col = [rgb 255 0 0, rgb 7 7 7]\<rparr>"
      "[\<lparr>old_color = rgb 255 0 0, new_color = rgb 0 0 255\<rparr>,
        \<lparr>old_color = rgb 255 0 0, new_color = rgb 0 255 0\<rparr>]"
      "rgb 255 0 0" "[]" "rgb 0 0 255" "rgb 0 255 0"]
  by (simp add: rgb_def append_color_change_def append_color_transform_def
      color_change_transformer_def color_change_loop.simps array_get_def array_set_def
      GIF_COLOREQ_def)

subsection \<open>The external-process transform\<close>




text \<open>
  Claim C1. The code at a colormap of two entries, when the parser returns a colormap
  of one entry in an array of two cells: \<open>nc\<close> is raised to 2 and the entry 1 of the
  colormap is overwritten by the cell 1 of the parser's array, which is not one of its
  entries (the claim has it unmodified). When the parser's array has one cell only,
  the loop reads outside of it. When the parser returns more entries than the colormap
  has, the loop copies them all, past \<open>ncol\<close> (the claim has only the first \<open>ncol\<close>
  used).
\<close>

theorem pipe_too_few_colors_overwrites:
  "pipe_color_transformer
       \<lparr>tmp_file_created = True, popen_ok = True, pclose_status = 0,
        fopen_result = Some False, parser_diagnostics = [],
        parser_result = Some \<lparr>ncol = 1, col = [rgb 0 0 255, rgb 9 9 9]\<rparr>\<rparr>
       \<lparr>ncol = 2, col = [rgb 255 0 0, rgb 7 7 7]\<rparr> ''filter''
       \<lparr>diagnostics = [], tmp_file_exists = False, child_input = []\<rparr>
     = Inr (\<lparr>ncol = 2, col = [rgb 0 0 255, rgb 9 9 9]\<rparr>,
            \<lparr>diagnostics = [Warning ''too few colors in color transformation results''],
             tmp_file_exists = False,
             child_input = [(255, 0, 0), (7, 7, 7)]\<rparr>)
   \<and> pipe_color_transformer
       \<lparr>tmp_file_created = True, popen_ok = True, pclose_status = 0,
        fopen_result = Some False, parser_diagnostics = [],
        parser_result = Some \<lparr>ncol = 1, col = [rgb 0 0 255]\<rparr>\<rparr>
       \<lparr>ncol = 2, col = [rgb 255 0 0, rgb 7 7 7]\<rparr> ''filter''
       \<lparr>diagnostics = [], tmp_file_exists = False, child_input = []\<rparr>
     = Inl OutOfBounds
   \<and> pipe_color_transformer
       \<lparr>tmp_file_created = True, popen_ok = True, pclose_status = 0,
        fopen_result = Some False, parser_diagnostics = [],
        parser_result = Some \<lparr>ncol = 2, col = [rgb 0 0 255, rgb 9 9 9]\<rparr>\<rparr>
       \<lparr>ncol = 1, col = [rgb 255 0 0, rgb 7 7 7]\<rparr> ''filter''
       \<lparr>diagnostics = [], tmp_file_exists = False, child_input = []\<rparr>
     = Inr (\<lparr>ncol = 1, col = [rgb 0 0 255, rgb 9 9 9]\<rparr>,
            \<lparr>diagnostics = [Warning ''too many colors in color transformation results''],
             tmp_file_exists = False,
             child_input = [(255, 0, 0)]\<rparr>)"
  by (simp add: pipe_color_transformer_def print_loop.simps copy_loop.simps array_get_def
      array_set_def rgb_def emit_def pipe_done_def)

subsection \<open>Cropping\<close>

lemma combine_crop_w_pos:
  "0 < crop_w (combine_crop crop gfi) \<longleftrightarrow>
   {crop_x crop ..< crop_x crop + crop_w crop} \<inter> {left gfi ..< left gfi + width gfi} \<noteq> {}"
  by (auto simp: combine_crop_def Let_def)

lemma combine_crop_h_pos:
  "0 < crop_h (combine_crop crop gfi) \<longleftrightarrow>
   {crop_y crop ..< crop_y crop + crop_h crop} \<inter> {top' gfi ..< top' gfi + height gfi} \<noteq> {}"
  by (auto simp: combine_crop_def Let_def)

lemma crop_image_result:
  "crop_image gfi crop preserve = Inr (gfi', r) \<Longrightarrow>
   r = (img gfi' \<noteq> None) \<and> r = (0 < width gfi' \<and> 0 < height gfi')"
  by (auto simp: crop_image_def crop_finish_def Let_def
      split: if_splits option.splits sum.splits list.splits)


text \<open>
  Claim C4. When the requested rectangle and the frame have no point in common (their
  intervals on the horizontal or on the vertical axis are disjoint): without
  \<open>preserve_total_crop\<close> the frame ends with width 0, height 0 and a null row table,
  and the result is false; with it, a frame that has a top-left pixel \<open>p\<close> ends with
  width 1, height 1, the row table of one row that starts with \<open>p\<close>, transparent
  index \<open>p\<close>, and the result is true. Whenever \<open>crop_image\<close> returns, its result says
  whether the row table is not null, and equally whether width and height are positive.
\<close>

theorem crop_image_empty_intersection:
  "({crop_x crop ..< crop_x crop + crop_w crop} \<inter> {left gfi ..< left gfi + width gfi} = {}
      \<or> {crop_y crop ..< crop_y crop + crop_h crop} \<inter> {top' gfi ..< top' gfi + height gfi} = {}
    \<longrightarrow>
      crop_image gfi crop False = Inr (gfi\<lparr>img := None, width := 0, height := 0\<rparr>, False)
      \<and> (\<forall>p ps rest. img gfi = Some ((p # ps) # rest) \<longrightarrow>
            crop_image gfi crop True =
              Inr (gfi\<lparr>img := Some [p # ps], width := 1, height := 1, transparent := uint p\<rparr>, True)
            \<and> pixel_at (img gfi) 0 0 = Inr p
            \<and> pixel_at (Some [p # ps]) 0 0 = Inr p))
   \<and> (\<forall>gfi' r. crop_image gfi crop preserve = Inr (gfi', r) \<longrightarrow>
         r = (img gfi' \<noteq> None) \<and> r = (0 < width gfi' \<and> 0 < height gfi'))"
proof (intro conjI impI allI)
  assume "{crop_x crop ..< crop_x crop + crop_w crop} \<inter> {left gfi ..< left gfi + width gfi} = {}
      \<or> {crop_y crop ..< crop_y crop + crop_h crop} \<inter> {top' gfi ..< top' gfi + height gfi} = {}"
  then have e: "\<not> (0 < crop_w (combine_crop crop gfi) \<and> 0 < crop_h (combine_crop crop gfi))"
    using combine_crop_w_pos [of crop gfi] combine_crop_h_pos [of crop gfi] by blast
  show "crop_image gfi crop False = Inr (gfi\<lparr>img := None, width := 0, height := 0\<rparr>, False)"
    by (simp add: e crop_image_def crop_finish_def Let_def)
  fix p ps rest
  assume "img gfi = Some ((p # ps) # rest)"
  then show "crop_image gfi crop True =
      Inr (gfi\<lparr>img := Some [p # ps], width := 1, height := 1, transparent := uint p\<rparr>, True)"
    and "pixel_at (img gfi) 0 0 = Inr p" and "pixel_at (Some [p # ps]) 0 0 = Inr p"
    by (simp_all add: e crop_image_def crop_finish_def Let_def array_get_def pixel_at_def)
next
  fix gfi' r
  assume "crop_image gfi crop preserve = Inr (gfi', r)"
  then show "r = (img gfi' \<noteq> None)" and "r = (0 < width gfi' \<and> 0 < height gfi')"
    using crop_image_result by blast+
qed

text \<open>The theorem at a frame of 2 by 2 pixels at (0,0) and a rectangle at (5,5).\<close>

theorem crop_image_empty_intersection_witness:
  "({crop_x \<lparr>crop_x = 5, crop_y = 5, crop_w = 2, crop_h = 2, left_offset = 5, top_offset = 5\<rparr>
       ..< 5 + 2} \<inter> {0 ..< 0 + (2::int)} = {})
   \<and> crop_image
        \<lparr>img = Some [[1, 2], [3, 4]], compressed = None, width = 2, height = 2, left = 0,
         top' = 0, transparent = - 1\<rparr>
        \<lparr>crop_x = 5, crop_y = 5, crop_w = 2, crop_h = 2, left_offset = 5, top_offset = 5\<rparr> False
      = Inr (\<lparr>img = None, compressed = None, width = 0, height = 0, left = 0,
         top' = 0, transparent = - 1\<rparr>, False)
   \<and> crop_image
        \<lparr>img = Some [[1, 2], [3, 4]], compressed = None, width = 2, height = 2, left = 0,
         top' = 0, transparent = - 1\<rparr>
        \<lparr>crop_x = 5, crop_y = 5, crop_w = 2, crop_h = 2, left_offset = 5, top_offset = 5\<rparr> True
      = Inr (\<lparr>img = Some [[1, 2]], compressed = None, width = 1, height = 1, left = 0,
         top' = 0, transparent = 1\<rparr>, True)"
  using crop_image_empty_intersection [of
      "\<lparr>crop_x = 5, crop_y = 5, crop_w = 2, crop_h = 2, left_offset = 5, top_offset = 5\<rparr>"
      "\<lparr>img = Some [[1, 2], [3, 4]], compressed = None, width = 2, height = 2, left = 0,
         top' = 0, transparent = - 1\<rparr>" True]
  by simp

text \<open>
  Claim C10. In the branch of the empty intersection with \<open>preserve_total_crop\<close>, on
  a frame that has a top-left pixel, \<open>crop_image\<close> returns a frame with the same
  \<open>left\<close> and \<open>top\<close>, which differs from the given one in the row table, the width,
  the height and the transparent index only. Whenever \<open>crop_image\<close> returns a frame
  whose \<open>left\<close> or \<open>top\<close> differs, the intersection was not empty; and when the
  intersection is not empty, the offsets grow by the origin of the intersection minus
  the anchor of the rectangle.
\<close>

theorem crop_image_offsets:
  "(\<not> (0 < crop_w (combine_crop crop gfi) \<and> 0 < crop_h (combine_crop crop gfi))
      \<and> img gfi = Some ((p # ps) # rest) \<longrightarrow>
      (\<exists>gfi'. crop_image gfi crop True = Inr (gfi', True)
         \<and> left gfi' = left gfi \<and> top' gfi' = top' gfi
         \<and> gfi'\<lparr>img := img gfi, width := width gfi, height := height gfi,
                transparent := transparent gfi\<rparr> = gfi))
   \<and> (crop_image gfi crop preserve = Inr (gfi', r) \<longrightarrow>
        (left gfi' \<noteq> left gfi \<or> top' gfi' \<noteq> top' gfi \<longrightarrow>
           0 < crop_w (combine_crop crop gfi) \<and> 0 < crop_h (combine_crop crop gfi))
        \<and> (0 < crop_w (combine_crop crop gfi) \<and> 0 < crop_h (combine_crop crop gfi) \<longrightarrow>
             left gfi' = left gfi + (crop_x (combine_crop crop gfi) - left_offset crop)
             \<and> top' gfi' = top' gfi + (crop_y (combine_crop crop gfi) - top_offset crop)))"
proof (intro conjI impI)
  assume a: "\<not> (0 < crop_w (combine_crop crop gfi) \<and> 0 < crop_h (combine_crop crop gfi))
      \<and> img gfi = Some ((p # ps) # rest)"
  then have e: "\<not> (0 < crop_w (combine_crop crop gfi) \<and> 0 < crop_h (combine_crop crop gfi))"
    by blast
  have "crop_image gfi crop True =
      Inr (gfi\<lparr>img := Some [p # ps], width := 1, height := 1, transparent := uint p\<rparr>, True)"
    using a by (simp add: e crop_image_def crop_finish_def Let_def array_get_def)
  moreover have "gfi\<lparr>img := Some [p # ps], width := 1, height := 1, transparent := uint p,
      img := img gfi, width := width gfi, height := height gfi,
      transparent := transparent gfi\<rparr> = gfi"
    by simp
  ultimately show "\<exists>gfi'. crop_image gfi crop True = Inr (gfi', True)
         \<and> left gfi' = left gfi \<and> top' gfi' = top' gfi
         \<and> gfi'\<lparr>img := img gfi, width := width gfi, height := height gfi,
                transparent := transparent gfi\<rparr> = gfi"
    by simp
next
  assume r: "crop_image gfi crop preserve = Inr (gfi', r)"
  {
    assume "left gfi' \<noteq> left gfi \<or> top' gfi' \<noteq> top' gfi"
    with r show "0 < crop_w (combine_crop crop gfi)" and "0 < crop_h (combine_crop crop gfi)"
      by (auto simp: crop_image_def crop_finish_def Let_def
          split: if_splits option.splits sum.splits list.splits)
  }
  {
    assume "0 < crop_w (combine_crop crop gfi) \<and> 0 < crop_h (combine_crop crop gfi)"
    with r show "left gfi' = left gfi + (crop_x (combine_crop crop gfi) - left_offset crop)"
      and "top' gfi' = top' gfi + (crop_y (combine_crop crop gfi) - top_offset crop)"
      by (auto simp: crop_image_def crop_finish_def Let_def
          split: if_splits option.splits sum.splits list.splits)
  }
qed

text \<open>
  The theorem at a frame of 2 by 2 pixels at (3,4): a rectangle at (9,9) leaves the
  offsets, a rectangle at (4,4) with anchor (1,1) moves the frame to (3,3).
\<close>

theorem crop_image_offsets_witness:
  "crop_image
        \<lparr>img = Some [[1, 2], [3, 4]], compressed = None, width = 2, height = 2, left = 3,
         top' = 4, transparent = - 1\<rparr>
        \<lparr>crop_x = 9, crop_y = 9, crop_w = 2, crop_h = 2, left_offset = 5, top_offset = 5\<rparr> True
      = Inr (\<lparr>img = Some [[1, 2]], compressed = None, width = 1, height = 1, left = 3,
         top' = 4, transparent = 1\<rparr>, True)
   \<and> crop_image
        \<lparr>img = Some [[1, 2], [3, 4]], compressed = None, width = 2, height = 2, left = 3,
         top' = 4, transparent = - 1\<rparr>
        \<lparr>crop_x = 4, crop_y = 4, crop_w = 2, crop_h = 2, left_offset = 1, top_offset = 1\<rparr> True
      = Inr (\<lparr>img = Some [[2], [4]], compressed = None, width = 1, height = 2, left = 3,
         top' = 3, transparent = - 1\<rparr>, True)"
  using crop_image_offsets [of
        "\<lparr>crop_x = 9, crop_y = 9, crop_w = 2, crop_h = 2, left_offset = 5, top_offset = 5\<rparr>"
        "\<lparr>img = Some [[1, 2], [3, 4]], compressed = None, width = 2, height = 2, left = 3,
         top' = 4, transparent = - 1\<rparr>" 1 "[2]" "[[3, 4]]" True
        "\<lparr>img = Some [[1, 2]], compressed = None, width = 1, height = 1, left = 3,
         top' = 4, transparent = 1\<rparr>" True]
  by (simp add: crop_image_def crop_finish_def combine_crop_def crop_rows.simps array_get_def)

subsection \<open>Flipping\<close>

lemma flip_row_partial:
  "0 \<le> x \<Longrightarrow> w \<le> int (length buffer) \<Longrightarrow> w \<le> int (length row) \<Longrightarrow>
   flip_row w x buffer row =
     Inr (map (\<lambda>k. if int k \<le> w - 1 - x then buffer ! nat (w - 1 - int k) else row ! k)
            [0..<length row])"
proof (induction w x buffer row rule: flip_row.induct)
  case (1 w x buffer row)
  show ?case
  proof (cases "x < w")
    case False
    then have "map (\<lambda>k. if int k \<le> w - 1 - x then buffer ! nat (w - 1 - int k) else row ! k)
        [0..<length row] = row"
      by (auto intro!: nth_equalityI)
    with False show ?thesis by (simp add: flip_row.simps [of w x buffer row])
  next
    case True
    define row' where "row' = row[nat (w - 1 - x) := buffer ! nat x]"
    have g: "array_get buffer x = Inr (buffer ! nat x)"
      using "1.prems" True by (simp add: array_get_def)
    have s: "array_set row (w - 1 - x) (buffer ! nat x) = Inr row'"
      using "1.prems" True by (simp add: array_set_def row'_def)
    have "flip_row w (x + 1) buffer row' =
        Inr (map (\<lambda>k. if int k \<le> w - 1 - (x + 1) then buffer ! nat (w - 1 - int k) else row' ! k)
               [0..<length row'])"
      using "1.IH" [OF True g s] "1.prems" by (simp add: row'_def)
    moreover have "map (\<lambda>k. if int k \<le> w - 1 - (x + 1) then buffer ! nat (w - 1 - int k) else row' ! k)
               [0..<length row'] =
         map (\<lambda>k. if int k \<le> w - 1 - x then buffer ! nat (w - 1 - int k) else row ! k)
            [0..<length row]"
    proof (rule nth_equalityI)
      show "length (map (\<lambda>k. if int k \<le> w - 1 - (x + 1) then buffer ! nat (w - 1 - int k) else row' ! k)
               [0..<length row']) =
         length (map (\<lambda>k. if int k \<le> w - 1 - x then buffer ! nat (w - 1 - int k) else row ! k)
            [0..<length row])"
        by (simp add: row'_def)
    next
      fix i
      assume "i < length (map (\<lambda>k. if int k \<le> w - 1 - (x + 1) then buffer ! nat (w - 1 - int k) else row' ! k)
               [0..<length row'])"
      then have i: "i < length row" by (simp add: row'_def)
      have eq: "int i = w - 1 - x \<Longrightarrow> nat (w - 1 - int i) = nat x \<and> i = nat (w - 1 - x)"
        using "1.prems" by auto
      show "map (\<lambda>k. if int k \<le> w - 1 - (x + 1) then buffer ! nat (w - 1 - int k) else row' ! k)
               [0..<length row'] ! i =
         map (\<lambda>k. if int k \<le> w - 1 - x then buffer ! nat (w - 1 - int k) else row ! k)
            [0..<length row] ! i"
      proof (cases "int i = w - 1 - x")
        case True
        with i eq show ?thesis by (simp add: row'_def)
      next
        case False
        then have "i \<noteq> nat (w - 1 - x)" using True "1.prems" by auto
        with i False show ?thesis by (auto simp: row'_def)
      qed
    qed
    ultimately show ?thesis
      using True g s by (simp add: flip_row.simps [of w x buffer row])
  qed
qed

lemma flip_row_reversed:
  assumes "0 \<le> w" and "w \<le> int (length row)"
  shows "flip_row w 0 (take (nat w) row) row = Inr (reversed_row w row)"
proof -
  have "flip_row w 0 (take (nat w) row) row =
     Inr (map (\<lambda>k. if int k \<le> w - 1 - 0 then take (nat w) row ! nat (w - 1 - int k) else row ! k)
            [0..<length row])"
    using assms by (intro flip_row_partial) auto
  moreover have "map (\<lambda>k. if int k \<le> w - 1 - 0 then take (nat w) row ! nat (w - 1 - int k) else row ! k)
            [0..<length row] = reversed_row w row"
  proof (rule nth_equalityI)
    show "length (map (\<lambda>k. if int k \<le> w - 1 - 0 then take (nat w) row ! nat (w - 1 - int k) else row ! k)
            [0..<length row]) = length (reversed_row w row)"
      using assms by (simp add: reversed_row_def)
  next
    fix i
    assume "i < length (map (\<lambda>k. if int k \<le> w - 1 - 0 then take (nat w) row ! nat (w - 1 - int k) else row ! k)
            [0..<length row])"
    then have i: "i < length row" by simp
    show "map (\<lambda>k. if int k \<le> w - 1 - 0 then take (nat w) row ! nat (w - 1 - int k) else row ! k)
            [0..<length row] ! i = reversed_row w row ! i"
    proof (cases "i < nat w")
      case True
      have len: "length (take (nat w) row) = nat w" using assms by simp
      have "reversed_row w row ! i = rev (take (nat w) row) ! i"
        using True len by (simp add: reversed_row_def nth_append)
      also have "\<dots> = take (nat w) row ! (nat w - Suc i)"
        using True len by (simp add: rev_nth)
      finally have r: "reversed_row w row ! i = take (nat w) row ! (nat w - Suc i)" .
      have "nat (w - 1 - int i) = nat w - Suc i" and "int i \<le> w - 1 - 0"
        using True by auto
      with True i r show ?thesis by simp
    next
      case False
      have len: "length (rev (take (nat w) row)) = nat w" using assms by simp
      have "reversed_row w row ! i = drop (nat w) row ! (i - nat w)"
        using False len by (simp add: reversed_row_def nth_append)
      also have "\<dots> = row ! i"
        using False i by simp
      finally have r: "reversed_row w row ! i = row ! i" .
      have "\<not> int i \<le> w - 1 - 0" using False by auto
      with i r show ?thesis by simp
    qed
  qed
  ultimately show ?thesis by simp
qed

lemma reversed_row_twice:
  "0 \<le> w \<Longrightarrow> w \<le> int (length row) \<Longrightarrow> reversed_row w (reversed_row w row) = row"
  by (simp add: reversed_row_def min_def)

lemma length_reversed_row [simp]: "length (reversed_row w row) = length row"
  by (simp add: reversed_row_def)


lemma flip_rows_partial:
  "0 \<le> y \<Longrightarrow> 0 \<le> w \<Longrightarrow> h \<le> int (length rows) \<Longrightarrow>
   \<forall>k. y \<le> int k \<and> int k < h \<longrightarrow> w \<le> int (length (rows ! k)) \<Longrightarrow>
   flip_rows w h y rows =
     Inr (map (\<lambda>k. if y \<le> int k \<and> int k < h then reversed_row w (rows ! k) else rows ! k)
            [0..<length rows])"
proof (induction w h y rows rule: flip_rows.induct)
  case (1 w h y rows)
  show ?case
  proof (cases "y < h")
    case False
    then have "map (\<lambda>k. if y \<le> int k \<and> int k < h then reversed_row w (rows ! k) else rows ! k)
        [0..<length rows] = rows"
      by (auto intro!: nth_equalityI)
    with False show ?thesis by (simp add: flip_rows.simps [of w h y rows])
  next
    case True
    define row where "row = rows ! nat y"
    define rows' where "rows' = rows[nat y := reversed_row w row]"
    have wl: "w \<le> int (length row)"
      using "1.prems" True by (simp add: row_def)
    have g: "array_get rows y = Inr row"
      using "1.prems" True by (simp add: array_get_def row_def)
    have b: "read_bytes row w = Inr (take (nat w) row)"
      using "1.prems" wl by (simp add: read_bytes_def)
    have f: "flip_row w 0 (take (nat w) row) row = Inr (reversed_row w row)"
      using "1.prems" wl by (simp add: flip_row_reversed)
    have "flip_rows w h (y + 1) rows' =
        Inr (map (\<lambda>k. if y + 1 \<le> int k \<and> int k < h then reversed_row w (rows' ! k) else rows' ! k)
               [0..<length rows'])"
    proof -
      have p: "\<forall>k. y + 1 \<le> int k \<and> int k < h \<longrightarrow> w \<le> int (length (rows' ! k))"
        using "1.prems" by (auto simp: rows'_def nth_list_update)
      show ?thesis
        unfolding rows'_def
        by (rule "1.IH" [OF True g b f]) (use "1.prems" p in \<open>simp_all add: rows'_def\<close>)
    qed
    moreover have "map (\<lambda>k. if y + 1 \<le> int k \<and> int k < h then reversed_row w (rows' ! k) else rows' ! k)
               [0..<length rows'] =
         map (\<lambda>k. if y \<le> int k \<and> int k < h then reversed_row w (rows ! k) else rows ! k)
            [0..<length rows]"
      using "1.prems" True
      by (auto simp: rows'_def row_def nth_list_update intro!: nth_equalityI)
    ultimately show ?thesis
      using True g b f by (simp add: flip_rows.simps [of w h y rows] rows'_def)
  qed
qed

lemma flip_rows_raw:
  assumes "0 \<le> w" and "int (length rows) = h" and "list_all (\<lambda>row. w \<le> int (length row)) rows"
  shows "flip_rows w h 0 rows = Inr (map (reversed_row w) rows)"
proof -
  have "flip_rows w h 0 rows =
     Inr (map (\<lambda>k. if 0 \<le> int k \<and> int k < h then reversed_row w (rows ! k) else rows ! k)
            [0..<length rows])"
    using assms by (intro flip_rows_partial) (auto simp: list_all_length)
  moreover have "map (\<lambda>k. if 0 \<le> int k \<and> int k < h then reversed_row w (rows ! k) else rows ! k)
            [0..<length rows] = map (reversed_row w) rows"
    using assms by (auto intro!: nth_equalityI)
  ultimately show ?thesis by simp
qed

text \<open>
  Claim C6. On a frame in raw form, \<open>flip_image\<close> with \<open>is_vert\<close> false returns the
  frame in which the first \<open>width\<close> bytes of every row are in reverse order and
  \<open>left\<close> is \<open>screen_w - (left + width)\<close>; applied to that frame with the same
  screen width it returns the original frame: every row and \<open>left\<close> are as before.
\<close>

theorem flip_horizontal_involution:
  assumes "raw_frame gfi"
  shows "\<exists>rows. img gfi = Some rows
           \<and> flip_image gfi screen_w screen_h False =
               Inr (gfi\<lparr>img := Some (map (reversed_row (width gfi)) rows),
                        left := screen_w - (left gfi + width gfi)\<rparr>)
           \<and> flip_image (gfi\<lparr>img := Some (map (reversed_row (width gfi)) rows),
                              left := screen_w - (left gfi + width gfi)\<rparr>) screen_w screen_h False =
               Inr gfi"
proof -
  from assms obtain rows where rows: "img gfi = Some rows"
    and w: "0 \<le> width gfi" and h: "int (length rows) = height gfi"
    and l: "list_all (\<lambda>row. width gfi \<le> int (length row)) rows"
    by (auto simp: raw_frame_def split: option.splits)
  let ?rows1 = "map (reversed_row (width gfi)) rows"
  let ?g1 = "gfi\<lparr>img := Some ?rows1, left := screen_w - (left gfi + width gfi)\<rparr>"
  have 1: "flip_image gfi screen_w screen_h False = Inr ?g1"
    using rows flip_rows_raw [OF w h l] by (simp add: flip_image_def Let_def)
  have l1: "list_all (\<lambda>row. width gfi \<le> int (length row)) ?rows1"
    using l by (simp add: list_all_length)
  have "map (reversed_row (width gfi)) ?rows1 = rows"
    using l w by (auto simp: list_all_length reversed_row_twice intro!: nth_equalityI)
  then have 2: "flip_image ?g1 screen_w screen_h False = Inr gfi"
    using rows h flip_rows_raw [OF w _ l1, of "height gfi"] by (simp add: flip_image_def Let_def)
  from rows 1 2 show ?thesis by blast
qed

text \<open>The theorem at a frame of 3 by 2 pixels at offset 1 on a screen of width 10.\<close>

theorem flip_horizontal_involution_witness:
  "raw_frame \<lparr>img = Some [[1, 2, 3], [4, 5, 6]], compressed = None, width = 3, height = 2,
       left = 1, top' = 0, transparent = - 1\<rparr>
   \<and> flip_image \<lparr>img = Some [[1, 2, 3], [4, 5, 6]], compressed = None, width = 3, height = 2,
       left = 1, top' = 0, transparent = - 1\<rparr> 10 10 False
     = Inr \<lparr>img = Some [[3, 2, 1], [6, 5, 4]], compressed = None, width = 3, height = 2,
       left = 6, top' = 0, transparent = - 1\<rparr>
   \<and> flip_image \<lparr>img = Some [[3, 2, 1], [6, 5, 4]], compressed = None, width = 3, height = 2,
       left = 6, top' = 0, transparent = - 1\<rparr> 10 10 False
     = Inr \<lparr>img = Some [[1, 2, 3], [4, 5, 6]], compressed = None, width = 3, height = 2,
       left = 1, top' = 0, transparent = - 1\<rparr>"
proof -
  have r: "raw_frame \<lparr>img = Some [[1, 2, 3], [4, 5, 6]], compressed = None, width = 3, height = 2,
       left = 1, top' = 0, transparent = - 1\<rparr>"
    by (simp add: raw_frame_def)
  show ?thesis
    using r flip_horizontal_involution [OF r, of 10 10]
    by (simp add: reversed_row_def)
qed

subsection \<open>Rotation\<close>








lemma length_column_up [simp]: "length (column_up rows h x) = h"
  by (simp add: column_up_def)

lemma length_column_down [simp]: "length (column_down rows h x) = h"
  by (simp add: column_down_def)



subsection \<open>Scaling by the factor 1\<close>

lemma SCALE_mult: "SCALE d = d * 1024"
  by (simp add: SCALE_def push_bit_eq_mult)

lemma UNSCALE_div: "UNSCALE d = (d + 512) div 1024"
  by (simp add: UNSCALE_def UNSCALE_NOROUND_def drop_bit_eq_div push_bit_eq_mult)

lemma UNSCALE_NOROUND_INT_MAX: "UNSCALE_NOROUND INT_MAX = 2097151"
  by (simp add: UNSCALE_NOROUND_def INT_MAX_def drop_bit_eq_div)

lemma int_range_iff: "int_range v \<longleftrightarrow> - 2147483648 \<le> v \<and> v \<le> 2147483647"
  by (simp add: int_range_def INT_MIN_def INT_MAX_def)

lemma SCALE_defined_iff: "SCALE_defined d \<longleftrightarrow> 0 \<le> d \<and> d \<le> 2097151"
  by (auto simp: SCALE_defined_def int_range_iff SCALE_mult)

lemma UNSCALE_defined_iff: "UNSCALE_defined d \<longleftrightarrow> - 2147483648 \<le> d \<and> d \<le> 2147483135"
  by (auto simp: UNSCALE_defined_def int_range_iff)

lemma xstep_one:
  "int_of_double (real_of_int SCALE_FACTOR * 1 + 0.5) = 1024"
  "int_of_double (real_of_int SCALE_FACTOR + 1 / 2) = 1024"
proof -
  have "floor (1024 + 0.5 :: real) = 1024" by linarith
  then show "int_of_double (real_of_int SCALE_FACTOR * 1 + 0.5) = 1024"
    and "int_of_double (real_of_int SCALE_FACTOR + 1 / 2) = 1024"
    by (simp_all add: int_of_double_def SCALE_FACTOR_def SCALE_mult)
qed

lemma xstep_half:
  "int_of_double (real_of_int SCALE_FACTOR * (1 / 2) + 0.5) = 512"
  "int_of_double (real_of_int SCALE_FACTOR / 2 + 1 / 2) = 512"
proof -
  have "floor (512 + 0.5 :: real) = 512" by linarith
  then show "int_of_double (real_of_int SCALE_FACTOR * (1 / 2) + 0.5) = 512"
    and "int_of_double (real_of_int SCALE_FACTOR / 2 + 1 / 2) = 512"
    by (simp_all add: int_of_double_def SCALE_FACTOR_def SCALE_mult)
qed

lemma scale_fill_one:
  "0 \<le> i \<Longrightarrow> i < int (length in_line) \<Longrightarrow> 0 \<le> out \<Longrightarrow> out < int (length nd) \<Longrightarrow>
   scale_fill nd out nw 1 0 in_line i = Inr (nd[nat out := in_line ! nat i])"
  by (simp add: scale_fill.simps [of _ out nw 1 0] scale_fill.simps [of _ out nw 1 1]
      array_get_def array_set_def int_range_iff)

lemma scale_span_one:
  "0 \<le> i \<Longrightarrow> i < int (length in_line) \<Longrightarrow> 0 \<le> out \<Longrightarrow> out < int (length nd) \<Longrightarrow>
   int_range (x + 1) \<Longrightarrow>
   scale_span nw 1 in_line i nd x 1 out = Inr (nd[nat out := in_line ! nat i], x + 1, out + 1)"
  by (simp add: scale_span.simps [of nw 1 in_line i _ _ 1] scale_span.simps [of nw 1 in_line i _ _ 0]
      scale_fill_one)


lemma scale_columns_identity:
  assumes "in_width ctx = W" and "scaled_xstep ctx = 1024" and "new_right ctx = L + W"
    and "W \<le> int (length in_line)" and "0 \<le> base"
    and "0 \<le> L" and "L + W \<le> 2097151"
  shows "0 \<le> i \<Longrightarrow> base + W \<le> int (length nd) \<Longrightarrow>
    x = L + i \<Longrightarrow> sx = 1024 * (L + i) \<Longrightarrow> out = base + i \<Longrightarrow>
    scale_columns ctx 1 in_line i nd x sx out =
      Inr (map (\<lambda>k. if base + i \<le> int k \<and> int k < base + W
                     then in_line ! nat (int k - base) else nd ! k) [0..<length nd])"
proof (induction "nat (W - i)" arbitrary: i nd x sx out)
  case 0
  then have "\<not> i < W" by simp
  then have "map (\<lambda>k. if base + i \<le> int k \<and> int k < base + W
                     then in_line ! nat (int k - base) else nd ! k) [0..<length nd] = nd"
    by (auto intro!: nth_equalityI)
  with \<open>\<not> i < W\<close> show ?case
    by (simp add: scale_columns.simps [of ctx 1 in_line i] assms(1))
next
  case (Suc n)
  then have i: "i < W" by simp
  define nd' where "nd' = nd[nat (base + i) := in_line ! nat i]"
  have span: "scale_span (new_width ctx) 1 in_line i nd x 1 out = Inr (nd', x + 1, out + 1)"
    unfolding nd'_def \<open>out = base + i\<close>
    using Suc.prems i assms(4,5,6,7) by (intro scale_span_one) (auto simp: int_range_iff)
  have r1: "int_range (sx + 1024)" and r2: "SCALE_defined (L + W)" and r3: "SCALE_defined x"
    using Suc.prems i assms(6,7) by (simp_all add: int_range_iff SCALE_defined_iff)
  have r4: "UNSCALE_defined ((if i = W - 1 then SCALE (L + W) else sx + 1024) - SCALE x)"
    using Suc.prems by (simp add: UNSCALE_defined_iff SCALE_mult)
  have xd: "UNSCALE ((if i = W - 1 then SCALE (L + W) else sx + 1024) - SCALE x) = 1"
    using Suc.prems by (simp add: UNSCALE_div SCALE_mult)
  have step: "scale_columns ctx 1 in_line i nd x sx out =
      scale_columns ctx 1 in_line (i + 1) nd' (x + 1)
        (if i = W - 1 then SCALE (L + W) else sx + 1024) (out + 1)"
    using i by (subst scale_columns.simps) (simp only: assms(1,2,3) Let_def r1 r2 r3 r4 xd span
        simp_thms if_True if_False sum.case prod.case)
  have "scale_columns ctx 1 in_line (i + 1) nd' (x + 1)
        (if i = W - 1 then SCALE (L + W) else sx + 1024) (out + 1) =
      Inr (map (\<lambda>k. if base + (i + 1) \<le> int k \<and> int k < base + W
                     then in_line ! nat (int k - base) else nd' ! k) [0..<length nd'])"
    using Suc.hyps(2) Suc.prems by (intro Suc.hyps(1)) (auto simp: nd'_def SCALE_mult)
  moreover have "map (\<lambda>k. if base + (i + 1) \<le> int k \<and> int k < base + W
                     then in_line ! nat (int k - base) else nd' ! k) [0..<length nd'] =
      map (\<lambda>k. if base + i \<le> int k \<and> int k < base + W
                     then in_line ! nat (int k - base) else nd ! k) [0..<length nd]"
  proof (rule nth_equalityI)
    show "length (map (\<lambda>k. if base + (i + 1) \<le> int k \<and> int k < base + W
                     then in_line ! nat (int k - base) else nd' ! k) [0..<length nd']) =
      length (map (\<lambda>k. if base + i \<le> int k \<and> int k < base + W
                     then in_line ! nat (int k - base) else nd ! k) [0..<length nd])"
      by (simp add: nd'_def)
  next
    fix k
    assume "k < length (map (\<lambda>k. if base + (i + 1) \<le> int k \<and> int k < base + W
                     then in_line ! nat (int k - base) else nd' ! k) [0..<length nd'])"
    then have k: "k < length nd" by (simp add: nd'_def)
    show "map (\<lambda>k. if base + (i + 1) \<le> int k \<and> int k < base + W
                     then in_line ! nat (int k - base) else nd' ! k) [0..<length nd'] ! k =
      map (\<lambda>k. if base + i \<le> int k \<and> int k < base + W
                     then in_line ! nat (int k - base) else nd ! k) [0..<length nd] ! k"
    proof (cases "int k = base + i")
      case True
      then have "k = nat (base + i)" and "nat (int k - base) = nat i" by auto
      with True k i Suc.prems show ?thesis by (simp add: nd'_def)
    next
      case False
      then have "k \<noteq> nat (base + i)" using Suc.prems assms(5) by auto
      with False k show ?thesis by (auto simp: nd'_def)
    qed
  qed
  ultimately show ?case using step by simp
qed


lemma cell_div_mod:
  fixes W j k :: int
  assumes "0 < W" and "j * W \<le> k" and "k < j * W + W"
  shows "k div W = j" and "k mod W = k - j * W"
proof -
  have k: "k = W * j + (k - j * W)" by (simp add: mult.commute)
  show "k div W = j"
    using assms by (intro int_div_pos_eq [OF k]) auto
  show "k mod W = k - j * W"
    using assms by (intro int_mod_pos_eq [OF k]) auto
qed

lemma row_block_bound:
  fixes W H j :: int
  assumes "0 \<le> W" and "j < H"
  shows "j * W + W \<le> H * W"
proof -
  have "(j + 1) * W \<le> H * W"
    using assms by (intro mult_right_mono) auto
  then show ?thesis by (simp add: algebra_simps)
qed

lemma scale_rows_identity:
  assumes "in_img ctx = Some rows" and "in_width ctx = W" and "in_height ctx = H"
    and "in_left ctx = L" and "scaled_xstep ctx = 1024" and "scaled_ystep ctx = 1024"
    and "new_left ctx = L" and "new_top ctx = T" and "new_right ctx = L + W"
    and "new_bottom ctx = T + H" and "new_width ctx = W"
    and "0 < W" and "int (length rows) = H"
    and "\<forall>r < length rows. W \<le> int (length (rows ! r))"
    and "0 \<le> L" and "L + W \<le> 2097151" and "0 \<le> T" and "T + H \<le> 2097151"
    and "H * W \<le> 2147483647"
  shows "0 \<le> j \<Longrightarrow> int (length nd) = H * W \<Longrightarrow> y = T + j \<Longrightarrow> sy = 1024 * (T + j) \<Longrightarrow>
    scale_rows ctx j nd y sy =
      Inr (map (\<lambda>k. if j * W \<le> int k \<and> int k < H * W
                     then rows ! nat (int k div W) ! nat (int k mod W) else nd ! k)
             [0..<length nd])"
proof (induction "nat (H - j)" arbitrary: j nd y sy)
  case 0
  then have "\<not> j < H" by simp
  then have "H * W \<le> j * W" using assms(12) by (intro mult_right_mono) auto
  then have "map (\<lambda>k. if j * W \<le> int k \<and> int k < H * W
                     then rows ! nat (int k div W) ! nat (int k mod W) else nd ! k)
             [0..<length nd] = nd"
    by (auto intro!: nth_equalityI)
  with \<open>\<not> j < H\<close> show ?case
    by (simp add: scale_rows.simps [of ctx j] assms(3))
next
  case (Suc n)
  then have j: "j < H" by simp
  define in_line where "in_line = rows ! nat j"
  define nd' where "nd' = map (\<lambda>k. if j * W + 0 \<le> int k \<and> int k < j * W + W
                     then in_line ! nat (int k - j * W) else nd ! k) [0..<length nd]"
  have g: "array_get rows j = Inr in_line"
    using Suc.prems j assms(13) by (simp add: array_get_def in_line_def)
  have wl: "W \<le> int (length in_line)"
    using Suc.prems j assms(13,14) by (simp add: in_line_def)
  have bb: "j * W + W \<le> int (length nd)"
    using row_block_bound [of W j H] assms(12) j Suc.prems by simp
  have sy': "(if j = H - 1 then SCALE (T + H) else sy + 1024) = 1024 * (T + (j + 1))"
    using Suc.prems by (simp add: SCALE_mult)
  have nolt: "\<not> 1024 * (T + (j + 1)) < SCALE (y + 1)"
    using Suc.prems by (simp add: SCALE_mult)
  have yd: "UNSCALE (1024 * (T + (j + 1)) - SCALE y) = 1"
    using Suc.prems by (simp add: SCALE_mult UNSCALE_div)
  have out: "(y - T) * W + (L - L) = j * W"
    using Suc.prems by simp
  have cols: "scale_columns ctx 1 in_line 0 nd L (1024 * L) (j * W) = Inr nd'"
    unfolding nd'_def
  proof -
    have "0 \<le> j * W" using Suc.prems assms(12) by simp
    with Suc.prems bb show "scale_columns ctx 1 in_line 0 nd L (1024 * L) (j * W) =
        Inr (map (\<lambda>k. if j * W + 0 \<le> int k \<and> int k < j * W + W
                     then in_line ! nat (int k - j * W) else nd ! k) [0..<length nd])"
      by (intro scale_columns_identity [OF assms(2,5,9) wl _ assms(15,16)]) auto
  qed
  have "0 \<le> j * W" using Suc.prems assms(12) by simp
  then have jw: "- 2147483648 \<le> j * W" "j * W \<le> 2147483647"
    using Suc.prems assms(12,19) bb by linarith+
  have r1: "int_range (sy + 1024)" and r2: "SCALE_defined (T + H)"
    and r3: "int_range (y + 1)" and r4: "SCALE_defined (y + 1)" and r5: "SCALE_defined y"
    and r6: "UNSCALE_defined (1024 * (T + (j + 1)) - SCALE y)"
    and r7: "int_range (1024 * L)" and r8: "int_range (y - T)" and r9: "int_range ((y - T) * W)"
    and r10: "int_range (L - L)" and r11: "int_range (j * W)"
    using Suc.prems j assms(12,15,16,17,18) jw
    by (simp_all add: int_range_iff SCALE_defined_iff UNSCALE_defined_iff SCALE_mult)
  have step: "scale_rows ctx j nd y sy = scale_rows ctx (j + 1) nd' (y + 1) (1024 * (T + (j + 1)))"
    using j
    by (subst scale_rows.simps)
      (simp only: assms(1,3,4,5,6,7,8,10,11) option.case g sum.case Let_def r1 r2 sy' r3 r4 nolt
        r5 r6 yd r7 r8 r9 r10 out r11 cols simp_thms if_True if_False)
  have "scale_rows ctx (j + 1) nd' (y + 1) (1024 * (T + (j + 1))) =
      Inr (map (\<lambda>k. if (j + 1) * W \<le> int k \<and> int k < H * W
                     then rows ! nat (int k div W) ! nat (int k mod W) else nd' ! k)
             [0..<length nd'])"
    using Suc.hyps(2) Suc.prems by (intro Suc.hyps(1)) (auto simp: nd'_def)
  moreover have "map (\<lambda>k. if (j + 1) * W \<le> int k \<and> int k < H * W
                     then rows ! nat (int k div W) ! nat (int k mod W) else nd' ! k)
             [0..<length nd'] =
       map (\<lambda>k. if j * W \<le> int k \<and> int k < H * W
                     then rows ! nat (int k div W) ! nat (int k mod W) else nd ! k)
             [0..<length nd]"
  proof (rule nth_equalityI)
    show "length (map (\<lambda>k. if (j + 1) * W \<le> int k \<and> int k < H * W
                     then rows ! nat (int k div W) ! nat (int k mod W) else nd' ! k)
             [0..<length nd']) =
       length (map (\<lambda>k. if j * W \<le> int k \<and> int k < H * W
                     then rows ! nat (int k div W) ! nat (int k mod W) else nd ! k)
             [0..<length nd])"
      by (simp add: nd'_def)
  next
    fix k
    assume "k < length (map (\<lambda>k. if (j + 1) * W \<le> int k \<and> int k < H * W
                     then rows ! nat (int k div W) ! nat (int k mod W) else nd' ! k)
             [0..<length nd'])"
    then have k: "k < length nd" by (simp add: nd'_def)
    have e: "(j + 1) * W = j * W + W" by (simp add: algebra_simps)
    show "map (\<lambda>k. if (j + 1) * W \<le> int k \<and> int k < H * W
                     then rows ! nat (int k div W) ! nat (int k mod W) else nd' ! k)
             [0..<length nd'] ! k =
       map (\<lambda>k. if j * W \<le> int k \<and> int k < H * W
                     then rows ! nat (int k div W) ! nat (int k mod W) else nd ! k)
             [0..<length nd] ! k"
    proof (cases "j * W \<le> int k \<and> int k < j * W + W")
      case True
      then have "int k div W = j" and "int k mod W = int k - j * W"
        using cell_div_mod [of W j "int k"] assms(12) by auto
      with True k bb Suc.prems show ?thesis
        by (simp add: nd'_def e in_line_def)
    next
      case False
      with k assms(12) show ?thesis by (auto simp: nd'_def e)
    qed
  qed
  ultimately show ?case using step by simp
qed


lemma UNSCALE_1024: "UNSCALE (1024 * d) = d"
  by (simp add: UNSCALE_div)

lemma rows_of_identity:
  fixes w h :: nat
  assumes "0 < w" and "length rows = h" and "\<forall>r < length rows. w \<le> length (rows ! r)"
  shows "map (\<lambda>y. take w (drop (y * w)
             (map (\<lambda>k. rows ! (k div w) ! (k mod w)) [0..<h * w]))) [0..<h] =
         map (take w) rows"
proof (rule nth_equalityI)
  show "length (map (\<lambda>y. take w (drop (y * w)
             (map (\<lambda>k. rows ! (k div w) ! (k mod w)) [0..<h * w]))) [0..<h]) =
         length (map (take w) rows)"
    using assms by simp
next
  fix y
  assume "y < length (map (\<lambda>y. take w (drop (y * w)
             (map (\<lambda>k. rows ! (k div w) ! (k mod w)) [0..<h * w]))) [0..<h])"
  then have y: "y < h" by simp
  have b: "y * w + w \<le> h * w"
  proof -
    have "Suc y * w \<le> h * w" using y by (intro mult_le_mono1) simp
    then show ?thesis by simp
  qed
  have "take w (drop (y * w) (map (\<lambda>k. rows ! (k div w) ! (k mod w)) [0..<h * w])) =
      take w (rows ! y)"
  proof (rule nth_equalityI)
    show "length (take w (drop (y * w) (map (\<lambda>k. rows ! (k div w) ! (k mod w)) [0..<h * w]))) =
        length (take w (rows ! y))"
    proof -
      have "w \<le> h * w - y * w" using b by simp
      moreover have "w \<le> length (rows ! y)" using assms y by simp
      ultimately show ?thesis by (simp add: min_def)
    qed
  next
    fix x
    assume "x < length (take w (drop (y * w) (map (\<lambda>k. rows ! (k div w) ! (k mod w)) [0..<h * w])))"
    then have x: "x < w" by simp
    then have lt: "y * w + x < h * w" using b by simp
    have "y * w \<le> length (map (\<lambda>k. rows ! (k div w) ! (k mod w)) [0..<h * w])"
      using y by simp
    then have "drop (y * w) (map (\<lambda>k. rows ! (k div w) ! (k mod w)) [0..<h * w]) ! x =
        map (\<lambda>k. rows ! (k div w) ! (k mod w)) [0..<h * w] ! (y * w + x)"
      by (rule nth_drop)
    also have "\<dots> = rows ! ((y * w + x) div w) ! ((y * w + x) mod w)"
      using lt by simp
    also have "\<dots> = rows ! y ! x"
      using x assms(1) by simp
    finally show "take w (drop (y * w) (map (\<lambda>k. rows ! (k div w) ! (k mod w)) [0..<h * w])) ! x =
        take w (rows ! y) ! x"
      using x by simp
  qed
  with y assms show "map (\<lambda>y. take w (drop (y * w)
             (map (\<lambda>k. rows ! (k div w) ! (k mod w)) [0..<h * w]))) [0..<h] ! y =
         map (take w) rows ! y"
    by simp
qed

lemma scale_image_identity_raw:
  assumes "raw_frame gfi" and "img gfi = Some rows"
    and "1 \<le> width gfi" and "1 \<le> height gfi"
    and "0 \<le> left gfi" and "0 \<le> top' gfi"
    and "left gfi + width gfi \<le> 2097151" and "top' gfi + height gfi \<le> 2097151"
    and "width gfi * height gfi \<le> 2147483647"
  shows "scale_image decode encode uninit gfs gfi 1 1 =
           Inr (gfi\<lparr>img := Some (map (take (nat (width gfi))) rows), compressed := None\<rparr>)"
proof -
  define W H where "W = width gfi" and "H = height gfi"
  define w h where "w = nat W" and "h = nat H"
  have W: "W = int w" and H: "H = int h" and w0: "0 < w"
    using assms(3,4) by (simp_all add: w_def h_def W_def H_def)
  from assms(1,2) have len: "int (length rows) = H"
    and rl: "\<forall>r < length rows. W \<le> int (length (rows ! r))"
    by (auto simp: raw_frame_def list_all_length W_def H_def)
  define ctx where "ctx = \<lparr>in_img = Some rows, in_width = W, in_height = H,
      in_left = left gfi, scaled_xstep = 1024, scaled_ystep = 1024,
      new_left = left gfi, new_top = top' gfi, new_right = left gfi + W,
      new_bottom = top' gfi + H, new_width = W\<rparr>"
  define nd where "nd = map uninit [0..<nat (W * H)]"
  have lnd: "int (length nd) = H * W"
    using W H by (simp add: nd_def mult.commute)
  have "scale_rows ctx 0 nd (top' gfi) (1024 * top' gfi) =
      Inr (map (\<lambda>k. if 0 * W \<le> int k \<and> int k < H * W
                     then rows ! nat (int k div W) ! nat (int k mod W) else nd ! k)
             [0..<length nd])"
    using lnd W w0 len rl assms(5,6,7,8,9)
    by (intro scale_rows_identity [where L = "left gfi" and T = "top' gfi"])
      (simp_all add: ctx_def W_def [symmetric] H_def [symmetric] mult.commute)
  moreover have "map (\<lambda>k. if 0 * W \<le> int k \<and> int k < H * W
                     then rows ! nat (int k div W) ! nat (int k mod W) else nd ! k)
             [0..<length nd] = map (\<lambda>k. rows ! (k div w) ! (k mod w)) [0..<h * w]"
  proof -
    have l: "length nd = h * w" using lnd W H by (simp add: nd_def nat_mult_distrib mult.commute)
    have "\<And>k. nat (int k div W) = k div w" "\<And>k. nat (int k mod W) = k mod w"
      by (simp_all add: W zdiv_int [symmetric] zmod_int [symmetric])
    then show ?thesis
      unfolding l using W H by (auto intro!: nth_equalityI simp flip: of_nat_mult)
  qed
  ultimately have rows: "scale_rows ctx 0 nd (top' gfi) (1024 * top' gfi) =
      Inr (map (\<lambda>k. rows ! (k div w) ! (k mod w)) [0..<h * w])"
    by simp
  have set: "map (\<lambda>y. take w (drop (y * w) (map (\<lambda>k. rows ! (k div w) ! (k mod w)) [0..<h * w])))
      [0..<h] = map (take w) rows"
    using w0 len rl H W by (intro rows_of_identity) auto
  have geo: "UNSCALE (1024 * left gfi) = left gfi" "UNSCALE (1024 * top' gfi) = top' gfi"
    "UNSCALE (1024 * left gfi + 1024 * W) = left gfi + W"
    "UNSCALE (1024 * top' gfi + 1024 * H) = top' gfi + H"
    by (simp_all add: UNSCALE_div)
  have "0 \<le> W * H" using W H by simp
  then have "- 2147483648 \<le> W * H" by linarith
  then have rng: "int_range (W * H)"
    using assms(9) by (simp add: int_range_iff W_def [symmetric] H_def [symmetric])
  have big: "\<not> 2097151 < W" "\<not> 2097151 < H"
    using assms(5,6,7,8) by (simp_all add: W_def H_def)
  show ?thesis
    using assms(2,3,4,5,6,7,8) rows set rng big
    by (simp add: scale_image_def xstep_one Let_def geo UNSCALE_NOROUND_INT_MAX
        int_range_iff [of 1024] int_range_iff [of "1024 * x" for x]
        int_range_iff [of "1024 * x + 1024 * y" for x y] int_range_iff [of "x + y" for x y]
        UNSCALE_defined_iff
        Gif_ReleaseCompressedImage_def Gif_ReleaseUncompressedImage_def
        Gif_SetUncompressedImage_def
        W_def [symmetric] H_def [symmetric] w_def [symmetric] h_def [symmetric]
        ctx_def [symmetric] nd_def [symmetric])
qed

text \<open>
  Claim C5, amended. On a frame in raw form whose width and height are at least 1,
  whose \<open>left\<close> and \<open>top\<close> are not negative, whose right and bottom edges
  (\<open>left + width\<close>, \<open>top + height\<close>) are at most 2097151 (\<open>UNSCALE_NOROUND INT_MAX\<close>)
  and whose area is at most \<open>INT_MAX\<close>, no value of \<open>scale_image\<close> with both factors 1
  leaves the range of \<^verbatim>\<open>int\<close>, and it returns a frame with the same width, height,
  \<open>left\<close> and \<open>top\<close>, whose rows are the first \<open>width\<close> bytes of the original rows:
  every pixel is as before. When every row has exactly \<open>width\<close> bytes, the frame
  returned is the original one with its compressed representation released.
\<close>

theorem scale_image_identity:
  assumes "raw_frame gfi" and "1 \<le> width gfi" and "1 \<le> height gfi"
    and "0 \<le> left gfi" and "0 \<le> top' gfi"
    and "left gfi + width gfi \<le> 2097151" and "top' gfi + height gfi \<le> 2097151"
    and "width gfi * height gfi \<le> 2147483647"
  shows "\<exists>g rows. img gfi = Some rows
           \<and> scale_image decode encode uninit gfs gfi 1 1 = Inr g
           \<and> width g = width gfi \<and> height g = height gfi
           \<and> left g = left gfi \<and> top' g = top' gfi
           \<and> img g = Some (map (take (nat (width gfi))) rows)
           \<and> (\<forall>y x. 0 \<le> y \<and> y < height gfi \<and> 0 \<le> x \<and> x < width gfi \<longrightarrow>
                 pixel_at (img g) y x = pixel_at (img gfi) y x)
           \<and> (list_all (\<lambda>row. int (length row) = width gfi) rows \<longrightarrow>
                 g = gfi\<lparr>compressed := None\<rparr>)"
proof -
  from assms(1) obtain rows where rows: "img gfi = Some rows"
    and len: "int (length rows) = height gfi"
    and rl: "\<forall>r < length rows. width gfi \<le> int (length (rows ! r))"
    by (auto simp: raw_frame_def list_all_length split: option.splits)
  let ?g = "gfi\<lparr>img := Some (map (take (nat (width gfi))) rows), compressed := None\<rparr>"
  have s: "scale_image decode encode uninit gfs gfi 1 1 = Inr ?g"
    by (rule scale_image_identity_raw [OF assms(1) rows assms(2,3,4,5,6,7,8)])
  have p: "\<forall>y x. 0 \<le> y \<and> y < height gfi \<and> 0 \<le> x \<and> x < width gfi \<longrightarrow>
      pixel_at (img ?g) y x = pixel_at (img gfi) y x"
    using rows len rl by (auto simp: pixel_at_def array_get_def)
  have e: "list_all (\<lambda>row. int (length row) = width gfi) rows \<longrightarrow> ?g = gfi\<lparr>compressed := None\<rparr>"
  proof
    assume "list_all (\<lambda>row. int (length row) = width gfi) rows"
    then have "map (take (nat (width gfi))) rows = rows"
      by (auto simp: list_all_length intro!: nth_equalityI)
    with rows show "?g = gfi\<lparr>compressed := None\<rparr>" by simp
  qed
  from rows s p e show ?thesis by (intro exI [of _ ?g] exI [of _ rows]) simp
qed

text \<open>The theorem at a frame of 3 by 2 pixels at (1,0).\<close>

theorem scale_image_identity_witness:
  "raw_frame \<lparr>img = Some [[1, 2, 3], [4, 5, 6]], compressed = None, width = 3, height = 2,
       left = 1, top' = 0, transparent = - 1\<rparr>
   \<and> scale_image (\<lambda>gfi. None) (\<lambda>gfs gfi. []) (\<lambda>k. 0)
        \<lparr>images = [], screen_width = 4, screen_height = 2\<rparr>
        \<lparr>img = Some [[1, 2, 3], [4, 5, 6]], compressed = None, width = 3, height = 2,
         left = 1, top' = 0, transparent = - 1\<rparr> 1 1
     = Inr \<lparr>img = Some [[1, 2, 3], [4, 5, 6]], compressed = None, width = 3, height = 2,
         left = 1, top' = 0, transparent = - 1\<rparr>"
proof -
  have r: "raw_frame \<lparr>img = Some [[1, 2, 3], [4, 5, 6]], compressed = None, width = 3, height = 2,
       left = 1, top' = 0, transparent = - 1\<rparr>"
    by (simp add: raw_frame_def)
  show ?thesis
    using r scale_image_identity [OF r, of "\<lambda>gfi. None" "\<lambda>gfs gfi. []" "\<lambda>k. 0"
        "\<lparr>images = [], screen_width = 4, screen_height = 2\<rparr>"]
    by auto
qed

text \<open>
  Claim C5 as stated fails at a frame in raw form of width 0 and height 2 (two empty
  rows): with both factors 1 the new width is 0, which the code raises to 1 ("Don't
  allow 0-width or 0-height images"). The frame returned has width 1, and its two
  pixels are cells of the fresh array that no loop has written. It fails as well where
  the arithmetic leaves the range of \<^verbatim>\<open>int\<close>, which the size check does not prevent:
  at a frame of one row of 2097151 bytes at \<open>left = 1\<close> the product
  \<^verbatim>\<open>scaled_xstep * (gfi->left + gfi->width)\<close> is \<open>1024 * 2097152\<close>, computed before the
  check; at a frame of 46342 rows of 46342 bytes the product \<^verbatim>\<open>new_width * new_height\<close>
  is \<open>2147580964\<close>, computed after it.
\<close>

theorem scale_image_identity_counterexample:
  "raw_frame \<lparr>img = Some [[], []], compressed = None, width = 0, height = 2,
       left = 0, top' = 0, transparent = - 1\<rparr>
   \<and> scale_image (\<lambda>gfi. None) (\<lambda>gfs gfi. []) (\<lambda>k. 0)
        \<lparr>images = [], screen_width = 1, screen_height = 2\<rparr>
        \<lparr>img = Some [[], []], compressed = None, width = 0, height = 2,
         left = 0, top' = 0, transparent = - 1\<rparr> 1 1
     = Inr \<lparr>img = Some [[0], [0]], compressed = None, width = 1, height = 2,
         left = 0, top' = 0, transparent = - 1\<rparr>
   \<and> raw_frame \<lparr>img = Some [replicate 2097151 0], compressed = None, width = 2097151,
       height = 1, left = 1, top' = 0, transparent = - 1\<rparr>
   \<and> scale_image (\<lambda>gfi. None) (\<lambda>gfs gfi. []) (\<lambda>k. 0)
        \<lparr>images = [], screen_width = 2097152, screen_height = 1\<rparr>
        \<lparr>img = Some [replicate 2097151 0], compressed = None, width = 2097151, height = 1,
         left = 1, top' = 0, transparent = - 1\<rparr> 1 1
     = Inl IntOverflow
   \<and> raw_frame \<lparr>img = Some (replicate 46342 (replicate 46342 0)), compressed = None,
       width = 46342, height = 46342, left = 0, top' = 0, transparent = - 1\<rparr>
   \<and> scale_image (\<lambda>gfi. None) (\<lambda>gfs gfi. []) (\<lambda>k. 0)
        \<lparr>images = [], screen_width = 46342, screen_height = 46342\<rparr>
        \<lparr>img = Some (replicate 46342 (replicate 46342 0)), compressed = None,
         width = 46342, height = 46342, left = 0, top' = 0, transparent = - 1\<rparr> 1 1
     = Inl IntOverflow"
  by (simp add: raw_frame_def list_all_iff scale_image_def xstep_one Let_def UNSCALE_div
      SCALE_mult UNSCALE_NOROUND_INT_MAX int_range_iff SCALE_defined_iff UNSCALE_defined_iff
      scale_rows.simps scale_columns.simps scale_span.simps
      scale_fill.simps array_get_def array_set_def
      Gif_ReleaseCompressedImage_def Gif_ReleaseUncompressedImage_def
      Gif_SetUncompressedImage_def upt_conv_Cons)

subsection \<open>Scaling never leaves the new buffer\<close>

text \<open>
  With steps that are not negative, the loops of \<open>scale_image\<close> read inside the rows
  of a frame in raw form and write inside the new buffer: \<open>new_x\<close> stays between
  \<open>new_left\<close> and \<open>new_right\<close>, \<open>new_y\<close> between \<open>new_top\<close> and \<open>new_bottom\<close>.
  With edges that are not negative, scaled right and bottom edges of at most
  \<open>INT_MAX - 512\<close> and a new buffer of at most \<open>INT_MAX\<close> cells, no value leaves the
  range of \<^verbatim>\<open>int\<close>.
\<close>

lemma scale_fill_returns:
  "0 \<le> yinc \<Longrightarrow> (yinc < y_delta \<longrightarrow> 0 \<le> i \<and> i < int (length in_line)) \<Longrightarrow>
   \<forall>k. yinc \<le> k \<and> k < y_delta \<longrightarrow> 0 \<le> out + k * nw \<and> out + k * nw < int (length nd) \<Longrightarrow>
   \<forall>k. yinc \<le> k \<and> k < y_delta \<longrightarrow> int_range (k * nw) \<Longrightarrow>
   \<exists>nd'. scale_fill nd out nw y_delta yinc in_line i = Inr nd' \<and> length nd' = length nd"
proof (induction "nat (y_delta - yinc)" arbitrary: yinc nd)
  case 0
  then show ?case by (simp add: scale_fill.simps [of nd out nw y_delta yinc])
next
  case (Suc n)
  then have lt: "yinc < y_delta" by simp
  define nd1 where "nd1 = nd[nat (out + yinc * nw) := in_line ! nat i]"
  have g: "array_get in_line i = Inr (in_line ! nat i)"
    using Suc.prems lt by (simp add: array_get_def)
  have s: "array_set nd (out + yinc * nw) (in_line ! nat i) = Inr nd1"
    using Suc.prems lt by (simp add: array_set_def nd1_def)
  have r: "int_range (yinc * nw)"
    using Suc.prems(4) lt by simp
  have "\<exists>nd'. scale_fill nd1 out nw y_delta (yinc + 1) in_line i = Inr nd'
      \<and> length nd' = length nd1"
    using Suc.hyps(2) Suc.prems lt by (intro Suc.hyps(1)) (auto simp: nd1_def)
  then show ?case
    using lt g s r by (simp add: scale_fill.simps [of nd out nw y_delta yinc] nd1_def)
qed

lemma scale_span_returns:
  "(0 < x_delta \<and> 0 < y_delta \<longrightarrow> 0 \<le> i \<and> i < int (length in_line)) \<Longrightarrow>
   \<forall>c k. 0 \<le> c \<and> c < x_delta \<and> 0 \<le> k \<and> k < y_delta \<longrightarrow>
     0 \<le> out + c + k * nw \<and> out + c + k * nw < int (length nd) \<Longrightarrow>
   (0 < x_delta \<longrightarrow> (\<forall>k. 0 \<le> k \<and> k < y_delta \<longrightarrow> int_range (k * nw))) \<Longrightarrow>
   \<forall>c. 0 \<le> c \<and> c < x_delta \<longrightarrow> int_range (x + c + 1) \<Longrightarrow>
   \<exists>nd'. scale_span nw y_delta in_line i nd x x_delta out =
           Inr (nd', x + max x_delta 0, out + max x_delta 0)
     \<and> length nd' = length nd"
proof (induction "nat x_delta" arbitrary: nd x x_delta out)
  case 0
  then show ?case by (simp add: scale_span.simps [of nw y_delta in_line i nd x x_delta out])
next
  case (Suc n)
  then have pos: "0 < x_delta" by simp
  have r: "int_range (x + 1)"
    using Suc.prems(4) pos by force
  have "\<exists>nd1. scale_fill nd out nw y_delta 0 in_line i = Inr nd1 \<and> length nd1 = length nd"
  proof (rule scale_fill_returns)
    show "(0::int) \<le> 0" by simp
    show "0 < y_delta \<longrightarrow> 0 \<le> i \<and> i < int (length in_line)"
      using Suc.prems(1) pos by simp
    show "\<forall>k. 0 \<le> k \<and> k < y_delta \<longrightarrow> 0 \<le> out + k * nw \<and> out + k * nw < int (length nd)"
      using Suc.prems(2) pos by force
    show "\<forall>k. 0 \<le> k \<and> k < y_delta \<longrightarrow> int_range (k * nw)"
      using Suc.prems(3) pos by simp
  qed
  then obtain nd1 where f: "scale_fill nd out nw y_delta 0 in_line i = Inr nd1"
    and l1: "length nd1 = length nd" by blast
  have "\<exists>nd'. scale_span nw y_delta in_line i nd1 (x + 1) (x_delta - 1) (out + 1) =
           Inr (nd', x + 1 + max (x_delta - 1) 0, out + 1 + max (x_delta - 1) 0)
     \<and> length nd' = length nd1"
  proof (rule Suc.hyps(1))
    show "n = nat (x_delta - 1)" using Suc.hyps(2) by simp
    show "0 < x_delta - 1 \<and> 0 < y_delta \<longrightarrow> 0 \<le> i \<and> i < int (length in_line)"
      using Suc.prems(1) by simp
    show "\<forall>c k. 0 \<le> c \<and> c < x_delta - 1 \<and> 0 \<le> k \<and> k < y_delta \<longrightarrow>
        0 \<le> out + 1 + c + k * nw \<and> out + 1 + c + k * nw < int (length nd1)"
    proof (intro allI impI)
      fix c k
      assume "0 \<le> c \<and> c < x_delta - 1 \<and> 0 \<le> k \<and> k < y_delta"
      then have "0 \<le> c + 1 \<and> c + 1 < x_delta \<and> 0 \<le> k \<and> k < y_delta" by simp
      then have "0 \<le> out + (c + 1) + k * nw \<and> out + (c + 1) + k * nw < int (length nd)"
        using Suc.prems(2) by blast
      then show "0 \<le> out + 1 + c + k * nw \<and> out + 1 + c + k * nw < int (length nd1)"
        by (simp add: l1 add.assoc add.left_commute)
    qed
    show "0 < x_delta - 1 \<longrightarrow> (\<forall>k. 0 \<le> k \<and> k < y_delta \<longrightarrow> int_range (k * nw))"
      using Suc.prems(3) by simp
    show "\<forall>c. 0 \<le> c \<and> c < x_delta - 1 \<longrightarrow> int_range (x + 1 + c + 1)"
    proof (intro allI impI)
      fix c
      assume "0 \<le> c \<and> c < x_delta - 1"
      then have "0 \<le> c + 1 \<and> c + 1 < x_delta" by simp
      then have "int_range (x + (c + 1) + 1)" using Suc.prems(4) by blast
      moreover have "x + (c + 1) + 1 = x + 1 + c + 1" by simp
      ultimately show "int_range (x + 1 + c + 1)" by simp
    qed
  qed
  moreover have "x + 1 + max (x_delta - 1) 0 = x + max x_delta 0"
    and "out + 1 + max (x_delta - 1) 0 = out + max x_delta 0"
    using pos by simp_all
  ultimately show ?case
    using pos f l1 r by (simp add: scale_span.simps [of nw y_delta in_line i nd x x_delta out])
qed


lemma UNSCALE_mono: "a \<le> b \<Longrightarrow> UNSCALE a \<le> UNSCALE b"
  by (simp add: UNSCALE_div zdiv_mono1)

lemma UNSCALE_SCALE: "UNSCALE (SCALE d) = d"
  by (simp add: UNSCALE_div SCALE_mult)

lemma UNSCALE_diff_SCALE: "UNSCALE (a - SCALE b) = UNSCALE a - b"
proof -
  have "(a + 512 + (- b) * 1024) div 1024 = (- b) + (a + 512) div 1024"
    by (rule div_mult_self1) simp
  then show ?thesis by (simp add: UNSCALE_div SCALE_mult algebra_simps)
qed

lemma scale_columns_returns:
  assumes "in_width ctx = W" and "scaled_xstep ctx = xs" and "new_right ctx = nr"
    and "new_width ctx = nw"
    and "0 \<le> xs" and "UNSCALE (xs * (L + W)) \<le> nr" and "W \<le> int (length in_line)"
    and cells: "\<forall>c k. nl \<le> c \<and> c < nr \<and> 0 \<le> k \<and> k < y_delta \<longrightarrow>
        0 \<le> rowbase + (c - nl) + k * nw \<and> rowbase + (c - nl) + k * nw < int (length nd0)"
    and "0 \<le> L" and "0 \<le> nl" and "nr \<le> 2097151" and "xs * (L + W) \<le> 2147483135"
    and fills: "\<forall>k. 0 \<le> k \<and> k < y_delta \<longrightarrow> int_range (k * nw)"
  shows "0 \<le> i \<Longrightarrow> nl \<le> x \<Longrightarrow> x \<le> nr \<Longrightarrow> (i < W \<longrightarrow> sx = xs * (L + i)) \<Longrightarrow>
    out = rowbase + (x - nl) \<Longrightarrow> length nd = length nd0 \<Longrightarrow>
    \<exists>nd'. scale_columns ctx y_delta in_line i nd x sx out = Inr nd' \<and> length nd' = length nd0"
proof (induction "nat (W - i)" arbitrary: i nd x sx out)
  case 0
  then show ?case
    by (simp add: scale_columns.simps [of ctx y_delta in_line i] assms(1))
next
  case (Suc n)
  then have i: "i < W" by simp
  define sx' where "sx' = (if i = W - 1 then SCALE nr else sx + xs)"
  define xd where "xd = UNSCALE (sx' - SCALE x)"
  have U: "UNSCALE sx' \<le> nr"
  proof (cases "i = W - 1")
    case True
    then show ?thesis by (simp add: sx'_def UNSCALE_SCALE)
  next
    case False
    have "sx' = xs * (L + (i + 1))"
      using False Suc.prems(4) i by (simp add: sx'_def algebra_simps)
    moreover have "xs * (L + (i + 1)) \<le> xs * (L + W)"
      using i assms(5) by (intro mult_left_mono) auto
    ultimately show ?thesis
      using UNSCALE_mono [of "xs * (L + (i + 1))" "xs * (L + W)"] assms(6) by simp
  qed
  have xd: "xd = UNSCALE sx' - x"
    by (simp add: xd_def UNSCALE_diff_SCALE)
  have sxe: "sx + xs = xs * (L + (i + 1))"
    using Suc.prems(4) i by (simp add: algebra_simps)
  have lo: "0 \<le> xs * (L + (i + 1))"
    using Suc.prems(1) assms(5,9) by simp
  have hi: "xs * (L + (i + 1)) \<le> xs * (L + W)"
    using i assms(5) by (intro mult_left_mono) auto
  have r1: "int_range (sx + xs)"
    unfolding sxe using lo hi assms(12) by (simp add: int_range_iff)
  have r2: "SCALE_defined nr" and r3: "SCALE_defined x"
    using Suc.prems(2,3) assms(10,11) by (simp_all add: SCALE_defined_iff)
  have sx'b: "0 \<le> sx'" "sx' \<le> 2147483135"
    using Suc.prems(2,3) assms(10,11,12) lo hi sxe by (simp_all add: sx'_def SCALE_mult)
  have r4: "UNSCALE_defined (sx' - SCALE x)"
    using sx'b Suc.prems(2,3) assms(10,11) by (simp add: UNSCALE_defined_iff SCALE_mult)
  have "\<exists>nd1. scale_span nw y_delta in_line i nd x xd out =
           Inr (nd1, x + max xd 0, out + max xd 0) \<and> length nd1 = length nd"
  proof (rule scale_span_returns)
    show "0 < xd \<and> 0 < y_delta \<longrightarrow> 0 \<le> i \<and> i < int (length in_line)"
      using Suc.prems(1) i assms(7) by simp
    show "\<forall>c k. 0 \<le> c \<and> c < xd \<and> 0 \<le> k \<and> k < y_delta \<longrightarrow>
        0 \<le> out + c + k * nw \<and> out + c + k * nw < int (length nd)"
    proof (intro allI impI)
      fix c k
      assume a: "0 \<le> c \<and> c < xd \<and> 0 \<le> k \<and> k < y_delta"
      then have "nl \<le> x + c \<and> x + c < nr \<and> 0 \<le> k \<and> k < y_delta"
        using Suc.prems(2) U xd by simp
      then have "0 \<le> rowbase + (x + c - nl) + k * nw
          \<and> rowbase + (x + c - nl) + k * nw < int (length nd0)"
        using cells by blast
      then show "0 \<le> out + c + k * nw \<and> out + c + k * nw < int (length nd)"
        using Suc.prems(5,6) by (simp add: algebra_simps)
    qed
    show "0 < xd \<longrightarrow> (\<forall>k. 0 \<le> k \<and> k < y_delta \<longrightarrow> int_range (k * nw))"
      using fills by simp
    show "\<forall>c. 0 \<le> c \<and> c < xd \<longrightarrow> int_range (x + c + 1)"
      using Suc.prems(2) U xd assms(10,11) by (auto simp: int_range_iff)
  qed
  then obtain nd1 where span: "scale_span nw y_delta in_line i nd x xd out =
           Inr (nd1, x + max xd 0, out + max xd 0)" and l1: "length nd1 = length nd"
    by blast
  have step: "scale_columns ctx y_delta in_line i nd x sx out =
      scale_columns ctx y_delta in_line (i + 1) nd1 (x + max xd 0) sx' (out + max xd 0)"
    using i
    by (subst scale_columns.simps)
      (simp only: assms(1,2,3,4) Let_def r1 r2 sx'_def [symmetric] r3 r4 xd_def [symmetric] span
        simp_thms if_True if_False sum.case prod.case)
  have "\<exists>nd'. scale_columns ctx y_delta in_line (i + 1) nd1 (x + max xd 0) sx' (out + max xd 0) =
      Inr nd' \<and> length nd' = length nd0"
  proof (rule Suc.hyps(1))
    show "n = nat (W - (i + 1))" using Suc.hyps(2) by simp
    show "0 \<le> i + 1" using Suc.prems(1) by simp
    show "nl \<le> x + max xd 0" using Suc.prems(2) by simp
    show "x + max xd 0 \<le> nr" using Suc.prems(3) U xd by simp
    show "i + 1 < W \<longrightarrow> sx' = xs * (L + (i + 1))"
      using Suc.prems(4) i by (simp add: sx'_def algebra_simps)
    show "out + max xd 0 = rowbase + (x + max xd 0 - nl)"
      using Suc.prems(5) by simp
    show "length nd1 = length nd0" using l1 Suc.prems(6) by simp
  qed
  then show ?case using step by simp
qed


lemma cell_in_range:
  fixes r c nw nh :: int
  assumes "0 \<le> r" and "r < nh" and "0 \<le> c" and "c < nw"
  shows "0 \<le> r * nw + c" and "r * nw + c < nh * nw"
proof -
  have nw: "0 \<le> nw" using assms(3,4) by simp
  then have "0 \<le> r * nw" using assms(1) by simp
  then show "0 \<le> r * nw + c" using assms(3) by simp
  have "(r + 1) * nw \<le> nh * nw"
    using assms(2) nw by (intro mult_right_mono) auto
  then show "r * nw + c < nh * nw"
    using assms(4) by (simp add: algebra_simps)
qed

lemma scale_rows_returns:
  assumes "in_img ctx = Some rows" and "in_width ctx = W" and "in_height ctx = H"
    and "in_left ctx = L" and "scaled_xstep ctx = xs" and "scaled_ystep ctx = ys"
    and "new_left ctx = nl" and "new_top ctx = nt" and "new_right ctx = nr"
    and "new_bottom ctx = nb" and "new_width ctx = nr - nl"
    and "0 \<le> xs" and "0 \<le> ys"
    and "UNSCALE (xs * (L + W)) \<le> nr" and "UNSCALE (ys * (T + H)) \<le> nb" and "nl \<le> nr"
    and "H \<le> int (length rows)" and "\<forall>r < length rows. W \<le> int (length (rows ! r))"
    and "int (length nd0) = (nb - nt) * (nr - nl)"
    and "0 \<le> L" and "0 \<le> T" and "0 \<le> W" and "0 \<le> nl" and "0 \<le> nt"
    and "nr \<le> 2097151" and "nb \<le> 2097150"
    and "xs * (L + W) \<le> 2147483135" and "ys * (T + H) \<le> 2147483135"
    and "(nb - nt) * (nr - nl) \<le> 2147483647"
  shows "0 \<le> j \<Longrightarrow> nt \<le> y \<Longrightarrow> y \<le> nb \<Longrightarrow> (j < H \<longrightarrow> sy = ys * (T + j)) \<Longrightarrow>
    length nd = length nd0 \<Longrightarrow>
    \<exists>nd'. scale_rows ctx j nd y sy = Inr nd' \<and> length nd' = length nd0"
proof (induction "nat (H - j)" arbitrary: j nd y sy)
  case 0
  then show ?case
    by (simp add: scale_rows.simps [of ctx j] assms(3))
next
  case (Suc n)
  then have j: "j < H" by simp
  define in_line where "in_line = rows ! nat j"
  define sy' where "sy' = (if j = H - 1 then SCALE nb else sy + ys)"
  have g: "array_get rows j = Inr in_line"
    using Suc.prems(1) j assms(17) by (simp add: array_get_def in_line_def)
  have wl: "W \<le> int (length in_line)"
    using Suc.prems(1) j assms(17,18) by (simp add: in_line_def)
  have U: "UNSCALE sy' \<le> nb"
  proof (cases "j = H - 1")
    case True
    then show ?thesis by (simp add: sy'_def UNSCALE_SCALE)
  next
    case False
    have "sy' = ys * (T + (j + 1))"
      using False Suc.prems(4) j by (simp add: sy'_def algebra_simps)
    moreover have "ys * (T + (j + 1)) \<le> ys * (T + H)"
      using j assms(13) by (intro mult_left_mono) auto
    ultimately show ?thesis
      using UNSCALE_mono [of "ys * (T + (j + 1))" "ys * (T + H)"] assms(15) by simp
  qed
  have next_sy: "j + 1 < H \<longrightarrow> sy' = ys * (T + (j + 1))"
    using Suc.prems(4) j by (simp add: sy'_def algebra_simps)
  have sye: "sy + ys = ys * (T + (j + 1))"
    using Suc.prems(4) j by (simp add: algebra_simps)
  have lo: "0 \<le> ys * (T + (j + 1))"
    using Suc.prems(1) assms(13,21) by simp
  have hi: "ys * (T + (j + 1)) \<le> ys * (T + H)"
    using j assms(13) by (intro mult_left_mono) auto
  have r1: "int_range (sy + ys)"
    unfolding sye using lo hi assms(28) by (simp add: int_range_iff)
  have r2: "SCALE_defined nb" and r3: "int_range (y + 1)" and r4: "SCALE_defined (y + 1)"
    and r5: "SCALE_defined y"
    using Suc.prems(2,3) assms(24,26) by (simp_all add: SCALE_defined_iff int_range_iff)
  have sy'b: "0 \<le> sy'" "sy' \<le> 2147483135"
    using Suc.prems(2,3) assms(24,26,28) lo hi sye by (simp_all add: sy'_def SCALE_mult)
  have r6: "UNSCALE_defined (sy' - SCALE y)"
    using sy'b Suc.prems(2,3) assms(24,26) by (simp add: UNSCALE_defined_iff SCALE_mult)
  have "0 \<le> xs * L" using assms(12,20) by simp
  moreover have "xs * L \<le> xs * (L + W)"
    using assms(12,22) by (intro mult_left_mono) auto
  ultimately have r7: "int_range (xs * L)"
    using assms(27) by (simp add: int_range_iff)
  have nw0: "0 \<le> nr - nl" using assms(16) by simp
  have cell: "0 \<le> k * (nr - nl) \<and> k * (nr - nl) \<le> 2147483647" if "0 \<le> k" and "k \<le> nb - nt" for k
  proof -
    have "k * (nr - nl) \<le> (nb - nt) * (nr - nl)"
      using that nw0 by (intro mult_right_mono) auto
    moreover have "0 \<le> k * (nr - nl)" using that nw0 by simp
    ultimately show ?thesis using assms(29) by linarith
  qed
  have r8: "int_range (y - nt)" and r10: "int_range (nl - nl)"
    using Suc.prems(2,3) assms(24,26) by (simp_all add: int_range_iff)
  have r9: "int_range ((y - nt) * (nr - nl))"
    and r11: "int_range ((y - nt) * (nr - nl) + (nl - nl))"
    using cell [of "y - nt"] Suc.prems(2,3) by (auto simp: int_range_iff)
  show ?case
  proof (cases "sy' < SCALE (y + 1)")
    case True
    have step: "scale_rows ctx j nd y sy = scale_rows ctx (j + 1) nd y sy'"
      using j True
      by (subst scale_rows.simps)
        (simp only: assms(1,3,10) option.case g sum.case Let_def assms(6) r1 r2
          sy'_def [symmetric] r3 r4 simp_thms if_True if_False)
    have "\<exists>nd'. scale_rows ctx (j + 1) nd y sy' = Inr nd' \<and> length nd' = length nd0"
    proof (rule Suc.hyps(1))
      show "n = nat (H - (j + 1))" using Suc.hyps(2) by simp
      show "0 \<le> j + 1" using Suc.prems(1) by simp
      show "nt \<le> y" "y \<le> nb" "length nd = length nd0" using Suc.prems by simp_all
      show "j + 1 < H \<longrightarrow> sy' = ys * (T + (j + 1))" by (rule next_sy)
    qed
    then show ?thesis using step by simp
  next
    case False
    define yd where "yd = UNSCALE (sy' - SCALE y)"
    have yd: "yd = UNSCALE sy' - y"
      by (simp add: yd_def UNSCALE_diff_SCALE)
    have "UNSCALE (SCALE (y + 1)) \<le> UNSCALE sy'"
      using False by (intro UNSCALE_mono) simp
    then have yd1: "1 \<le> yd" using yd by (simp add: UNSCALE_SCALE)
    define rowbase where "rowbase = (y - nt) * (nr - nl)"
    have "\<exists>nd1. scale_columns ctx yd in_line 0 nd nl (xs * L) (rowbase + (nl - nl)) = Inr nd1
        \<and> length nd1 = length nd0"
    proof (rule scale_columns_returns [where W = W and xs = xs and nr = nr and nw = "nr - nl"
          and L = L and nl = nl and rowbase = rowbase])
      show "in_width ctx = W" "scaled_xstep ctx = xs" "new_right ctx = nr"
        "new_width ctx = nr - nl" "0 \<le> xs" "UNSCALE (xs * (L + W)) \<le> nr"
        "W \<le> int (length in_line)" "0 \<le> L" "0 \<le> nl" "nr \<le> 2097151"
        "xs * (L + W) \<le> 2147483135"
        using assms wl by simp_all
      show "\<forall>k. 0 \<le> k \<and> k < yd \<longrightarrow> int_range (k * (nr - nl))"
      proof (intro allI impI)
        fix k
        assume "0 \<le> k \<and> k < yd"
        then have "0 \<le> k" "k \<le> nb - nt" using yd U Suc.prems(2) by simp_all
        then show "int_range (k * (nr - nl))"
          using cell [of k] by (simp add: int_range_iff)
      qed
      show "\<forall>c k. nl \<le> c \<and> c < nr \<and> 0 \<le> k \<and> k < yd \<longrightarrow>
          0 \<le> rowbase + (c - nl) + k * (nr - nl)
          \<and> rowbase + (c - nl) + k * (nr - nl) < int (length nd0)"
      proof (intro allI impI)
        fix c k
        assume a: "nl \<le> c \<and> c < nr \<and> 0 \<le> k \<and> k < yd"
        have e: "rowbase + (c - nl) + k * (nr - nl) = (y - nt + k) * (nr - nl) + (c - nl)"
          by (simp add: rowbase_def algebra_simps)
        have r: "0 \<le> y - nt + k" "y - nt + k < nb - nt"
          using a Suc.prems(2) U yd by simp_all
        have c: "0 \<le> c - nl" "c - nl < nr - nl" using a by simp_all
        show "0 \<le> rowbase + (c - nl) + k * (nr - nl)
          \<and> rowbase + (c - nl) + k * (nr - nl) < int (length nd0)"
          unfolding e assms(19)
          using cell_in_range [OF r c] by simp
      qed
      show "(0::int) \<le> 0" "nl \<le> nl" "nl \<le> nr" "0 < W \<longrightarrow> xs * L = xs * (L + 0)"
        "rowbase + (nl - nl) = rowbase + (nl - nl)" "length nd = length nd0"
        using assms(16) Suc.prems(5) by simp_all
    qed
    then obtain nd1 where cols: "scale_columns ctx yd in_line 0 nd nl (xs * L)
        ((y - nt) * (nr - nl) + (nl - nl)) = Inr nd1"
      and l1: "length nd1 = length nd0"
      unfolding rowbase_def by blast
    have r12: "int_range (y + yd)"
      using U yd yd1 Suc.prems(2) assms(24,26) by (simp add: int_range_iff)
    have step: "scale_rows ctx j nd y sy = scale_rows ctx (j + 1) nd1 (y + yd) sy'"
      using j False
      by (subst scale_rows.simps)
        (simp only: assms(1,3,4,5,6,7,8,10,11) option.case g sum.case Let_def r1 r2
          sy'_def [symmetric] r3 r4 r5 r6 yd_def [symmetric] r7 r8 r9 r10 r11 cols r12
          simp_thms if_True if_False)
    have "\<exists>nd'. scale_rows ctx (j + 1) nd1 (y + yd) sy' = Inr nd' \<and> length nd' = length nd0"
    proof (rule Suc.hyps(1))
      show "n = nat (H - (j + 1))" using Suc.hyps(2) by simp
      show "0 \<le> j + 1" using Suc.prems(1) by simp
      show "nt \<le> y + yd" using Suc.prems(2) yd1 by simp
      show "y + yd \<le> nb" using U yd by simp
      show "length nd1 = length nd0" by (rule l1)
      show "j + 1 < H \<longrightarrow> sy' = ys * (T + (j + 1))" by (rule next_sy)
    qed
    then show ?thesis using step by simp
  qed
qed


lemma scale_image_returns:
  fixes gfi :: Gif_Image and decode :: "Gif_Image \<Rightarrow> 8 word list list option"
    and xfactor yfactor :: real
  defines "gfi1 \<equiv> (if img gfi = None then Gif_UncompressImage decode gfi else gfi)"
  defines "xs \<equiv> int_of_double (real_of_int SCALE_FACTOR * xfactor + 0.5)"
  defines "ys \<equiv> int_of_double (real_of_int SCALE_FACTOR * yfactor + 0.5)"
  defines "nl \<equiv> UNSCALE (xs * left gfi)"
  defines "nt \<equiv> UNSCALE (ys * top' gfi)"
  defines "nr0 \<equiv> UNSCALE (xs * (left gfi + width gfi))"
  defines "nb0 \<equiv> UNSCALE (ys * (top' gfi + height gfi))"
  defines "nw \<equiv> (if nr0 - nl \<le> 0 then 1 else nr0 - nl)"
  defines "nh \<equiv> (if nb0 - nt \<le> 0 then 1 else nb0 - nt)"
  assumes raw: "raw_frame gfi1" and xs: "0 \<le> xs" "xs \<le> 2147483647"
    and ys: "0 \<le> ys" "ys \<le> 2147483647"
    and lt: "0 \<le> left gfi" "0 \<le> top' gfi"
    and sums: "left gfi + width gfi \<le> 2147483647" "top' gfi + height gfi \<le> 2147483647"
    and prods: "xs * (left gfi + width gfi) \<le> 2147483135"
      "ys * (top' gfi + height gfi) \<le> 2147483135"
    and nw: "nl + nw \<le> 2097151" and nh: "nt + nh \<le> 2097150"
    and cells: "nw * nh \<le> 2147483647"
  shows "\<exists>g. scale_image decode encode uninit gfs gfi xfactor yfactor = Inr g
           \<and> width g = nw \<and> height g = nh \<and> left g = nl \<and> top' g = nt"
proof -
  define nr where "nr = (if nr0 - nl \<le> 0 then nl + 1 else nr0)"
  define nb where "nb = (if nb0 - nt \<le> 0 then nt + 1 else nb0)"
  define nd where "nd = map uninit [0..<nat (nw * nh)]"
  define ctx where "ctx = \<lparr>in_img = img gfi1, in_width = width gfi1, in_height = height gfi1,
      in_left = left gfi1, scaled_xstep = xs, scaled_ystep = ys,
      new_left = nl, new_top = nt, new_right = nr, new_bottom = nb, new_width = nw\<rparr>"
  have geo1: "width gfi1 = width gfi" "height gfi1 = height gfi" "left gfi1 = left gfi"
    "top' gfi1 = top' gfi"
    by (simp_all add: gfi1_def Gif_UncompressImage_def)
  have pw: "(if nr0 - nl \<le> 0 then (1, nl + 1) else (nr0 - nl, nr0)) = (nw, nr)"
    and ph: "(if nb0 - nt \<le> 0 then (1, nt + 1) else (nb0 - nt, nb0)) = (nh, nb)"
    by (simp_all add: nw_def nr_def nh_def nb_def)
  from raw obtain rows where rows: "img gfi1 = Some rows"
    and len: "int (length rows) = height gfi" and w0: "0 \<le> width gfi"
    and rl: "\<forall>r < length rows. width gfi \<le> int (length (rows ! r))"
    by (auto simp: raw_frame_def list_all_length geo1 split: option.splits)
  have nwr: "nw = nr - nl" and nhb: "nh = nb - nt" and pos: "1 \<le> nw" "1 \<le> nh"
    by (simp_all add: nw_def nr_def nh_def nb_def)
  have lnd: "int (length nd) = (nb - nt) * (nr - nl)"
  proof -
    have "0 \<le> nw * nh" using pos by simp
    then show ?thesis by (simp add: nd_def nwr nhb mult.commute)
  qed
  have h0: "0 \<le> height gfi" using raw by (simp add: raw_frame_def geo1)
  have pl: "0 \<le> xs * left gfi" "xs * left gfi \<le> xs * (left gfi + width gfi)"
    using xs(1) lt(1) w0 by (simp_all add: mult_left_mono)
  have pt: "0 \<le> ys * top' gfi" "ys * top' gfi \<le> ys * (top' gfi + height gfi)"
    using ys(1) lt(2) h0 by (simp_all add: mult_left_mono)
  have pr: "0 \<le> xs * (left gfi + width gfi)" "0 \<le> ys * (top' gfi + height gfi)"
    using pl pt by linarith+
  have bl: "- 2147483648 \<le> xs * left gfi" "xs * left gfi \<le> 2147483135"
    "- 2147483648 \<le> ys * top' gfi" "ys * top' gfi \<le> 2147483135"
    "- 2147483648 \<le> xs * (left gfi + width gfi)"
    "- 2147483648 \<le> ys * (top' gfi + height gfi)"
    using pl pt pr prods by linarith+
  have nl0: "0 \<le> nl" and nt0: "0 \<le> nt"
    using pl(1) pt(1) by (simp_all add: nl_def nt_def UNSCALE_div)
  have ok: "(\<not> int_range xs \<or> \<not> int_range ys
         \<or> \<not> int_range (xs * left gfi) \<or> \<not> UNSCALE_defined (xs * left gfi)
         \<or> \<not> int_range (ys * top' gfi) \<or> \<not> UNSCALE_defined (ys * top' gfi)
         \<or> \<not> int_range (left gfi + width gfi)
         \<or> \<not> int_range (xs * (left gfi + width gfi))
         \<or> \<not> UNSCALE_defined (xs * (left gfi + width gfi))
         \<or> \<not> int_range (top' gfi + height gfi)
         \<or> \<not> int_range (ys * (top' gfi + height gfi))
         \<or> \<not> UNSCALE_defined (ys * (top' gfi + height gfi))) = False"
    using xs ys lt w0 h0 sums prods bl by (simp add: int_range_iff UNSCALE_defined_iff)
  have rng: "int_range (nw * nh)"
  proof -
    have "0 \<le> nw * nh" using pos by simp
    then show ?thesis using cells by (simp add: int_range_iff)
  qed
  have "\<exists>nd'. scale_rows ctx 0 nd nt (ys * top' gfi1) = Inr nd' \<and> length nd' = length nd"
  proof (rule scale_rows_returns [where rows = rows and W = "width gfi" and H = "height gfi"
        and L = "left gfi" and T = "top' gfi" and xs = xs and ys = ys and nl = nl and nt = nt
        and nr = nr and nb = nb])
    show "in_img ctx = Some rows" "in_width ctx = width gfi" "in_height ctx = height gfi"
      "in_left ctx = left gfi" "scaled_xstep ctx = xs" "scaled_ystep ctx = ys"
      "new_left ctx = nl" "new_top ctx = nt" "new_right ctx = nr" "new_bottom ctx = nb"
      "new_width ctx = nr - nl"
      by (simp_all add: ctx_def rows geo1 nwr)
    show "0 \<le> xs" "0 \<le> ys" by (rule xs, rule ys)
    show "UNSCALE (xs * (left gfi + width gfi)) \<le> nr"
      by (simp add: nr_def nr0_def)
    show "UNSCALE (ys * (top' gfi + height gfi)) \<le> nb"
      by (simp add: nb_def nb0_def)
    show "nl \<le> nr" using pos nwr by simp
    show "height gfi \<le> int (length rows)" using len by simp
    show "\<forall>r < length rows. width gfi \<le> int (length (rows ! r))" by (rule rl)
    show "int (length nd) = (nb - nt) * (nr - nl)" by (rule lnd)
    show "(0::int) \<le> 0" "nt \<le> nt" "length nd = length nd" by simp_all
    show "nt \<le> nb" using pos nhb by simp
    show "0 \<le> left gfi" "0 \<le> top' gfi" "0 \<le> width gfi" "0 \<le> nl" "0 \<le> nt"
      by (rule lt(1), rule lt(2), rule w0, rule nl0, rule nt0)
    show "nr \<le> 2097151" "nb \<le> 2097150" using nw nh nwr nhb by simp_all
    show "xs * (left gfi + width gfi) \<le> 2147483135"
      "ys * (top' gfi + height gfi) \<le> 2147483135"
      by (rule prods(1), rule prods(2))
    show "(nb - nt) * (nr - nl) \<le> 2147483647"
      using cells by (simp add: nwr nhb mult.commute)
    show "0 < height gfi \<longrightarrow> ys * top' gfi1 = ys * (top' gfi + 0)" by (simp add: geo1)
  qed
  then obtain nd' where r: "scale_rows ctx 0 nd nt (ys * top' gfi1) = Inr nd'" by blast
  have big: "\<not> (nw > UNSCALE_NOROUND INT_MAX \<or> nh > UNSCALE_NOROUND INT_MAX)"
    using nw nh nl0 nt0 by (simp add: UNSCALE_NOROUND_INT_MAX)
  show ?thesis
    apply (simp only: scale_image_def Let_def)
    apply (simp only: xs_def [symmetric] ys_def [symmetric])
    apply (simp only: ok if_False)
    apply (simp only: nl_def [symmetric] nt_def [symmetric] nr0_def [symmetric]
        nb0_def [symmetric])
    apply (simp only: pw ph prod.case gfi1_def [symmetric])
    apply (simp only: big if_False rng not_True_eq_False)
    apply (simp only: ctx_def [symmetric] nd_def [symmetric] r sum.case)
    apply (simp add: Gif_ReleaseCompressedImage_def Gif_ReleaseUncompressedImage_def
        Gif_SetUncompressedImage_def Gif_FullCompressImage_def geo1 nl_def nt_def)
    done
qed


lemma scale_image_half:
  assumes "raw_frame (if img gfi = None then Gif_UncompressImage decode gfi else gfi)"
    and "width gfi = 100" and "height gfi = 100" and "left gfi = 0" and "top' gfi = 0"
  shows "\<exists>g. scale_image decode encode uninit gfs gfi (1 / 2) (1 / 2) = Inr g
           \<and> width g = 50 \<and> height g = 50 \<and> left g = 0 \<and> top' g = 0"
  using scale_image_returns [where gfi = gfi and decode = decode and xfactor = "1 / 2"
      and yfactor = "1 / 2" and uninit = uninit and encode = encode and gfs = gfs] assms
  by (simp add: xstep_half UNSCALE_div)

lemma resize_loop_single:
  assumes "images gfs = [gfi]"
    and "scale_image decode encode uninit gfs gfi xfactor yfactor = Inr g"
  shows "resize_loop decode encode uninit xfactor yfactor 0 gfs = Inr (gfs\<lparr>images := [g]\<rparr>)"
  using assms
  by (simp add: resize_loop.simps [of decode encode uninit xfactor yfactor 0]
      resize_loop.simps [of decode encode uninit xfactor yfactor 1] array_get_def)

text \<open>
  Claim C8. For a stream of screen 100 by 100 that \<^verbatim>\<open>Gif_CalculateScreenSize\<close> leaves
  as it is, with one frame of 100 by 100 pixels at (0,0) that is in raw form (or is
  decoded to raw form), \<open>resize_stream\<close> with target width 50, a target height that
  is not set (at most 0) and \<open>fit\<close> false returns the stream with screen 50 by 50
  whose frame is the one \<open>scale_image\<close> returns for the factors 0.5 and 0.5; this
  frame has width 50, height 50 and offset (0,0).
\<close>

theorem resize_stream_half_example:
  assumes "calculate_screen_size gfs = gfs"
    and "images gfs = [gfi]" and "screen_width gfs = 100" and "screen_height gfs = 100"
    and "width gfi = 100" and "height gfi = 100" and "left gfi = 0" and "top' gfi = 0"
    and "raw_frame (if img gfi = None then Gif_UncompressImage decode gfi else gfi)"
    and "nheight \<le> 0"
  shows "\<exists>g. resize_stream calculate_screen_size decode encode uninit gfs 50 nheight False =
              Inr (gfs\<lparr>images := [g], screen_width := 50, screen_height := 50\<rparr>)
           \<and> scale_image decode encode uninit gfs gfi (1 / 2) (1 / 2) = Inr g
           \<and> width g = 50 \<and> height g = 50 \<and> left g = 0 \<and> top' g = 0"
proof -
  obtain g where g: "scale_image decode encode uninit gfs gfi (1 / 2) (1 / 2) = Inr g"
    and geo: "width g = 50" "height g = 50" "left g = 0" "top' g = 0"
    using scale_image_half [OF assms(9,5,6,7,8)] by blast
  have loop: "resize_loop decode encode uninit (1 / 2) (1 / 2) 0 gfs = Inr (gfs\<lparr>images := [g]\<rparr>)"
    using assms(2) g by (rule resize_loop_single)
  have h: "int_of_double (101 / 2) = 50"
  proof -
    have "floor (101 / 2 :: real) = 50" by linarith
    then show ?thesis by (simp add: int_of_double_def)
  qed
  have "resize_stream calculate_screen_size decode encode uninit gfs 50 nheight False =
      Inr (gfs\<lparr>images := [g], screen_width := 50, screen_height := 50\<rparr>)"
    using assms(10) loop
    by (simp add: resize_stream_def Let_def assms(1,3,4) h)
  with g geo show ?thesis by blast
qed


text \<open>The theorem at a frame of 100 rows of 100 zero bytes.\<close>

theorem resize_stream_half_example_witness:
  "raw_frame \<lparr>img = Some (replicate 100 (replicate 100 0)), compressed = None,
       width = 100, height = 100, left = 0, top' = 0, transparent = - 1\<rparr>
   \<and> (\<exists>g. resize_stream (\<lambda>gfs. gfs) (\<lambda>gfi. None) (\<lambda>gfs gfi. []) (\<lambda>k. 0)
              \<lparr>images = [\<lparr>img = Some (replicate 100 (replicate 100 0)), compressed = None,
                           width = 100, height = 100, left = 0, top' = 0, transparent = - 1\<rparr>],
               screen_width = 100, screen_height = 100\<rparr> 50 0 False =
            Inr \<lparr>images = [g], screen_width = 50, screen_height = 50\<rparr>
          \<and> width g = 50 \<and> height g = 50 \<and> left g = 0 \<and> top' g = 0)"
proof -
  have r: "raw_frame \<lparr>img = Some (replicate 100 (replicate 100 0)), compressed = None,
       width = 100, height = 100, left = 0, top' = 0, transparent = - 1\<rparr>"
    by (simp add: raw_frame_def list_all_iff)
  show ?thesis
    using r resize_stream_half_example [where calculate_screen_size = "\<lambda>gfs. gfs"
        and gfs = "\<lparr>images = [\<lparr>img = Some (replicate 100 (replicate 100 0)), compressed = None,
                           width = 100, height = 100, left = 0, top' = 0, transparent = - 1\<rparr>],
               screen_width = 100, screen_height = 100\<rparr>"
        and gfi = "\<lparr>img = Some (replicate 100 (replicate 100 0)), compressed = None,
                           width = 100, height = 100, left = 0, top' = 0, transparent = - 1\<rparr>"
        and decode = "\<lambda>gfi. None" and encode = "\<lambda>gfs gfi. []" and uninit = "\<lambda>k. 0"
        and nheight = 0]
    by auto
qed

end
